theory Spec2Isabelle
  imports Main "HOL-Library.Word" "HOL-Library.Signed_Division" "HOL-Library.AList"
begin

section \<open>The Consul service-discovery adapter (registry/consul/service\_discovery.go)\<close>

text \<open>
  A shallow embedding of \<^verbatim>\<open>consulServiceDiscovery\<close>. The Consul agent, the URL
  type, the \<^verbatim>\<open>constant\<close> package and the pager are external to the file: the
  agent's answers are arguments of the operations, the URL is a record of the
  parameters the adapter reads, and the named constants are a record passed to the
  functions that use them. Go panics (nil dereference, write to a nil map, closing a
  closed channel, index out of range) are values of the type \<open>panic\<close>; a Go
  \<^verbatim>\<open>error\<close> result is an \<open>error option\<close> with \<open>None\<close> for \<^verbatim>\<open>nil\<close>.
  Log calls have no effect on any state of the adapter and are left out, except in
  the heartbeat loop, whose actions are recorded.
\<close>

subsection \<open>Go values\<close>

type_synonym int64 = "64 word"

text \<open>A \<^verbatim>\<open>time.Duration\<close> is an \<^verbatim>\<open>int64\<close> count of nanoseconds.\<close>

type_synonym Duration = "64 word"

definition Millisecond :: Duration where
  "Millisecond = 1000000"


text \<open>Go's \<^verbatim>\<open>/\<close> on \<^verbatim>\<open>int64\<close> truncates towards zero. Both divisors in the
  file are non-zero constants.\<close>

definition div_int64 :: "int64 \<Rightarrow> int64 \<Rightarrow> int64" where
  "div_int64 a b = word_of_int (sint a sdiv sint b)"

datatype panic =
    NilPointerDereference
  | AssignNilMap
  | CloseOfClosedChannel
  | IndexOutOfRange
  | MakeSliceCapOutOfRange
  | IntegerDivideByZero

text \<open>\<^verbatim>\<open>perrors.WithMessage(err, msg)\<close> wraps an error with a message.\<close>

datatype error = BackendError string | WithMessage error string

subsection \<open>strconv and fmt\<close>

definition digit_char :: "nat \<Rightarrow> char" where
  "digit_char d = char_of (48 + d)"

function format_nat :: "nat \<Rightarrow> string" where
  "format_nat n =
     (if n < 10 then [digit_char n] else format_nat (n div 10) @ [digit_char (n mod 10)])"
  by pat_completeness auto
termination
  by (relation "measure id") auto

declare format_nat.simps [simp del]

text \<open>\<^verbatim>\<open>strconv.FormatInt(i, 10)\<close>, also what \<^verbatim>\<open>%d\<close> prints.\<close>

definition FormatInt :: "int \<Rightarrow> string" where
  "FormatInt i = (if i < 0 then CHR ''-'' # format_nat (nat (- i)) else format_nat (nat i))"

definition FormatBool :: "bool \<Rightarrow> string" where
  "FormatBool b = (if b then ''true'' else ''false'')"

text \<open>\<^verbatim>\<open>strconv.ParseBool\<close> returns the value and an error; every caller in the file
  drops the error, and the value returned with an error is \<^verbatim>\<open>false\<close>.\<close>

definition ParseBool :: "string \<Rightarrow> bool \<times> bool" where
  "ParseBool s =
     (if s \<in> set [''1'', ''t'', ''T'', ''TRUE'', ''true'', ''True''] then (True, True)
      else if s \<in> set [''0'', ''f'', ''F'', ''FALSE'', ''false'', ''False''] then (False, True)
      else (False, False))"

subsection \<open>Data model\<close>

text \<open>A Go map is a reference that may be \<^verbatim>\<open>nil\<close>: \<open>None\<close> is the nil map. Reading
  a nil map gives the zero value, \<^verbatim>\<open>delete\<close> on it does nothing, writing to it
  panics.\<close>

type_synonym metadata = "(string \<rightharpoonup> string) option"

definition map_index :: "metadata \<Rightarrow> string \<Rightarrow> string \<times> bool" where
  "map_index m k =
     (case m of None \<Rightarrow> ('''', False)
      | Some f \<Rightarrow> (case f k of None \<Rightarrow> ('''', False) | Some v \<Rightarrow> (v, True)))"

definition map_delete :: "metadata \<Rightarrow> string \<Rightarrow> metadata" where
  "map_delete m k = (case m of None \<Rightarrow> None | Some f \<Rightarrow> Some (f(k := None)))"

text \<open>The fields of \<^verbatim>\<open>registry.DefaultServiceInstance\<close>, as the literal in
  \<^verbatim>\<open>GetInstances\<close> lists them; the getters of the \<^verbatim>\<open>ServiceInstance\<close> interface
  other than \<^verbatim>\<open>GetMetadata\<close> read the fields.\<close>

record ServiceInstance =
  Id' :: string
  ServiceName :: string
  Host :: string
  Port :: int
  Enable :: bool
  Healthy :: bool
  Metadata :: metadata

record AgentServiceCheck =
  CheckID :: string
  TTL :: string
  DeregisterCriticalServiceAfter :: string

record AgentServiceRegistration =
  reg_ID :: string
  reg_Name :: string
  reg_Port :: int
  reg_Address :: string
  reg_Meta :: metadata
  reg_Check :: AgentServiceCheck

record AgentService =
  svc_ID :: string
  svc_Service :: string
  svc_Address :: string
  svc_Port :: int
  svc_Meta :: metadata

text \<open>A \<^verbatim>\<open>consul.ServiceEntry\<close>: the service and the result of
  \<^verbatim>\<open>Checks.AggregatedStatus()\<close>.\<close>

record ServiceEntry =
  entry_Service :: AgentService
  entry_AggregatedStatus :: string

definition HealthPassing :: string where
  "HealthPassing = ''passing''"

text \<open>The named constants of the package \<^verbatim>\<open>constant\<close> that the check descriptor
  uses; their values are not in the file.\<close>

record constants =
  DEREGISTER_AFTER :: string
  DEFAULT_DEREGISTER_TIME :: string

text \<open>The registry URL, as the parameters the adapter reads from it: each field is
  what \<^verbatim>\<open>GetParamInt\<close> or \<^verbatim>\<open>GetParam\<close> returns for that key, default applied.\<close>

record URL =
  url_CHECK_PASS_INTERVAL :: int64
  url_WATCH_TIMEOUT :: int64
  url_QUERY_TAG :: string

type_synonym chan = nat

text \<open>The struct. \<open>consulClient = None\<close> is the nil client, \<open>ttl = None\<close> the nil
  map; the map from instance key to stop channel is an association list with
  distinct keys.\<close>

record consulServiceDiscovery =
  consulClient :: "unit option"
  serviceUrl :: URL
  checkPassInterval :: int64
  tag :: string
  ttl :: "(string \<times> chan) list option"

text \<open>Modelled from the spec: the getter \<^verbatim>\<open>GetMetadata\<close> of
  \<^verbatim>\<open>registry.DefaultServiceInstance\<close>, which is not in the file. The instance of
  the spec has a metadata mapping, and the getter never returns nil: a nil map is
  replaced, in the instance, by an empty map, and the map returned is the instance's
  own map, not a copy. So the instance is returned too, as the call leaves it.\<close>

definition GetMetadata :: "ServiceInstance \<Rightarrow> metadata \<times> ServiceInstance" where
  "GetMetadata d =
     (case Metadata d of
        None \<Rightarrow> (Some Map.empty, d\<lparr>Metadata := Some Map.empty\<rparr>)
      | Some f \<Rightarrow> (Some f, d))"

subsection \<open>Instance codec\<close>

definition enable :: string where
  "enable = ''enable''"

definition buildID :: "ServiceInstance \<Rightarrow> string" where
  "buildID instance =
     ''id:'' @ Id' instance @ '',serviceName:'' @ ServiceName instance
       @ '',host:'' @ Host instance @ '',port:'' @ FormatInt (Port instance)"

definition buildCheck ::
    "constants \<Rightarrow> consulServiceDiscovery \<Rightarrow> ServiceInstance
       \<Rightarrow> AgentServiceCheck \<times> ServiceInstance" where
  "buildCheck K csd instance =
     (let (metadata, instance') = GetMetadata instance;
          (deregister, ok) = map_index metadata (DEREGISTER_AFTER K);
          deregister = (if \<not> ok \<or> deregister = '''' then DEFAULT_DEREGISTER_TIME K
                        else deregister)
      in (\<lparr>CheckID = buildID instance',
           TTL = FormatInt (sint (div_int64 (checkPassInterval csd) 1000)) @ ''s'',
           DeregisterCriticalServiceAfter = deregister\<rparr>, instance'))"

text \<open>\<^verbatim>\<open>buildRegisterInstance\<close> writes the \<^verbatim>\<open>enable\<close> key into the map that
  \<^verbatim>\<open>GetMetadata\<close> returned. A map that is not nil is the instance's own map, so
  the write shows in the caller's instance, which is returned too, as it is after
  the call; only a nil map would be replaced by a fresh one that the instance does
  not hold. The error result is always nil and is left out.\<close>

definition buildRegisterInstance ::
    "constants \<Rightarrow> consulServiceDiscovery \<Rightarrow> ServiceInstance
       \<Rightarrow> AgentServiceRegistration \<times> ServiceInstance" where
  "buildRegisterInstance K csd instance =
     (let (metadata, instance1) = GetMetadata instance;
          written = FormatBool (Enable instance1);
          (metadata, instance2) =
            (case metadata of
               None \<Rightarrow> (Some (Map.empty(enable \<mapsto> written)), instance1)
             | Some f \<Rightarrow>
                 (Some (f(enable \<mapsto> written)),
                  instance1\<lparr>Metadata := Some (f(enable \<mapsto> written))\<rparr>));
          (check, instance3) = buildCheck K csd instance2
      in (\<lparr>reg_ID = buildID instance3,
           reg_Name = ServiceName instance3,
           reg_Port = Port instance3,
           reg_Address = Host instance3,
           reg_Meta = metadata,
           reg_Check = check\<rparr>, instance3))"

text \<open>The body of the loop of \<^verbatim>\<open>GetInstances\<close> (and of the watch handler): one
  health entry to one instance.\<close>

definition decode_entry :: "ServiceEntry \<Rightarrow> ServiceInstance" where
  "decode_entry ins =
     (let metadata = svc_Meta (entry_Service ins);
          enableStr = fst (map_index metadata enable);
          metadata = map_delete metadata enable;
          enabled = fst (ParseBool enableStr);
          status = entry_AggregatedStatus ins;
          healthy = (if status = HealthPassing then True else False)
      in \<lparr>Id' = svc_ID (entry_Service ins),
          ServiceName = svc_Service (entry_Service ins),
          Host = svc_Address (entry_Service ins),
          Port = svc_Port (entry_Service ins),
          Enable = enabled,
          Healthy = healthy,
          Metadata = metadata\<rparr>)"

text \<open>What the agent lists for a registration it has stored: the service fields of
  the registration under the names of \<^verbatim>\<open>consul.AgentService\<close>, with the aggregated
  status of its checks.\<close>

definition agent_entry :: "AgentServiceRegistration \<Rightarrow> string \<Rightarrow> ServiceEntry" where
  "agent_entry r status =
     \<lparr>entry_Service =
        \<lparr>svc_ID = reg_ID r, svc_Service = reg_Name r, svc_Address = reg_Address r,
         svc_Port = reg_Port r, svc_Meta = reg_Meta r\<rparr>,
      entry_AggregatedStatus = status\<rparr>"

subsection \<open>Channels, goroutines and the agent\<close>

text \<open>The Go runtime state the adapter touches: the channels it has made (a channel
  is its index in the store), and the heartbeat goroutines it has started, each with
  the variables its closure captured. \<open>agent_services\<close> is the adapter's view of
  the agent: the service ids that its acknowledged register and deregister calls
  have left registered.\<close>

datatype chan_state = ChanOpen | ChanClosed

record heartbeat =
  hb_checkID :: string
  hb_stopChan :: chan
  hb_period :: Duration

record world =
  csd :: consulServiceDiscovery
  chans :: "chan_state list"
  goroutines :: "heartbeat list"
  agent_services :: "string set"

definition make_chan :: "chan_state list \<Rightarrow> chan \<times> chan_state list" where
  "make_chan cs = (length cs, cs @ [ChanOpen])"

text \<open>\<^verbatim>\<open>close\<close> panics on a closed channel.\<close>

definition close_chan :: "chan \<Rightarrow> chan_state list \<Rightarrow> panic + chan_state list" where
  "close_chan c cs =
     (if c < length cs \<and> cs ! c = ChanOpen then Inr (cs[c := ChanClosed])
      else Inl CloseOfClosedChannel)"

fun close_all :: "chan list \<Rightarrow> chan_state list \<Rightarrow> panic + chan_state list" where
  "close_all [] cs = Inr cs"
| "close_all (t # ts) cs =
     (case close_chan t cs of Inl p \<Rightarrow> Inl p | Inr cs' \<Rightarrow> close_all ts cs')"

text \<open>Reading the map \<^verbatim>\<open>csd.ttl\<close>: a nil map reads as an empty one.\<close>

definition ttl_entries :: "consulServiceDiscovery \<Rightarrow> (string \<times> chan) list" where
  "ttl_entries c = (case ttl c of None \<Rightarrow> [] | Some m \<Rightarrow> m)"

subsection \<open>Discovery facade\<close>

text \<open>The struct literal of \<^verbatim>\<open>newConsulServiceDiscovery\<close>; the fields it does not
  name are zero. The zero URL is an argument, since what its parameter reads return
  are defaults that are not in the file.\<close>

definition newConsulServiceDiscovery :: "URL \<Rightarrow> consulServiceDiscovery" where
  "newConsulServiceDiscovery url0 =
     \<lparr>consulClient = None, serviceUrl = url0, checkPassInterval = 0, tag = [],
      ttl = Some []\<rparr>"

definition new_world :: "URL \<Rightarrow> world" where
  "new_world url0 =
     \<lparr>csd = newConsulServiceDiscovery url0, chans = [], goroutines = [],
      agent_services = {}\<rparr>"

text \<open>\<open>new_client_err\<close> is the error of \<^verbatim>\<open>consul.NewClient\<close>. The fields
  \<^verbatim>\<open>tags\<close> and \<^verbatim>\<open>Config\<close> are written here and read by no operation below.\<close>

definition Init :: "world \<Rightarrow> URL \<Rightarrow> error option \<Rightarrow> error option \<times> world" where
  "Init w registryURL new_client_err =
     (let c = (csd w)\<lparr>serviceUrl := registryURL,
                      checkPassInterval := url_CHECK_PASS_INTERVAL registryURL,
                      tag := url_QUERY_TAG registryURL\<rparr>
      in case new_client_err of
           Some err \<Rightarrow> (Some (WithMessage err ''create consul client failed.''), w\<lparr>csd := c\<rparr>)
         | None \<Rightarrow> (None, w\<lparr>csd := c\<lparr>consulClient := Some ()\<rparr>\<rparr>))"

definition Destroy :: "world \<Rightarrow> panic + error option \<times> world" where
  "Destroy w =
     (let w1 = w\<lparr>csd := (csd w)\<lparr>consulClient := None\<rparr>\<rparr>
      in case close_all (map snd (ttl_entries (csd w1))) (chans w1) of
           Inl p \<Rightarrow> Inl p
         | Inr cs \<Rightarrow> Inr (None, w1\<lparr>csd := (csd w1)\<lparr>ttl := None\<rparr>, chans := cs\<rparr>))"

definition registerTtl :: "world \<Rightarrow> ServiceInstance \<Rightarrow> panic + error option \<times> world" where
  "registerTtl w instance =
     (let checkID = buildID instance;
          (stopChan, cs) = make_chan (chans w)
      in case ttl (csd w) of
           None \<Rightarrow> Inl AssignNilMap
         | Some m \<Rightarrow>
             (let c = (csd w)\<lparr>ttl := Some (AList.update (buildID instance) stopChan m)\<rparr>;
                  period = div_int64 (checkPassInterval c) 8 * Millisecond
              in Inr (None,
                   w\<lparr>csd := c, chans := cs,
                     goroutines := goroutines w
                       @ [\<lparr>hb_checkID = checkID, hb_stopChan = stopChan,
                           hb_period = period\<rparr>]\<rparr>)))"

text \<open>\<open>register_err\<close> is the error of \<^verbatim>\<open>ServiceRegister\<close>. A call through the
  nil client dereferences it. The instance is returned as the call leaves it.\<close>

definition Register ::
    "constants \<Rightarrow> world \<Rightarrow> ServiceInstance \<Rightarrow> error option
       \<Rightarrow> panic + error option \<times> world \<times> ServiceInstance" where
  "Register K w instance register_err =
     (let (ins, instance') = buildRegisterInstance K (csd w) instance
      in case consulClient (csd w) of
           None \<Rightarrow> Inl NilPointerDereference
         | Some client \<Rightarrow>
             (case register_err of
                Some err \<Rightarrow>
                  Inr (Some (WithMessage err
                         (''consul could not register the instance. '' @ ServiceName instance')),
                       w, instance')
              | None \<Rightarrow>
                  (case registerTtl
                          (w\<lparr>agent_services := insert (reg_ID ins) (agent_services w)\<rparr>)
                          instance' of
                     Inl p \<Rightarrow> Inl p
                   | Inr (e, w') \<Rightarrow> Inr (e, w', instance'))))"

definition Update ::
    "constants \<Rightarrow> world \<Rightarrow> ServiceInstance \<Rightarrow> error option \<Rightarrow> error option
       \<Rightarrow> panic + error option \<times> world \<times> ServiceInstance" where
  "Update K w instance deregister_err register_err =
     (let (ins, instance') = buildRegisterInstance K (csd w) instance
      in case consulClient (csd w) of
           None \<Rightarrow> Inl NilPointerDereference
         | Some client \<Rightarrow>
             (let w1 = (case deregister_err of
                          None \<Rightarrow> w\<lparr>agent_services := agent_services w - {buildID instance'}\<rparr>
                        | Some err \<Rightarrow> w)
              in case register_err of
                   None \<Rightarrow>
                     Inr (None,
                          w1\<lparr>agent_services := insert (reg_ID ins) (agent_services w1)\<rparr>,
                          instance')
                 | Some err \<Rightarrow> Inr (Some err, w1, instance')))"

definition Unregister ::
    "world \<Rightarrow> ServiceInstance \<Rightarrow> error option \<Rightarrow> panic + error option \<times> world" where
  "Unregister w instance deregister_err =
     (case consulClient (csd w) of
        None \<Rightarrow> Inl NilPointerDereference
      | Some client \<Rightarrow>
          (case deregister_err of
             Some err \<Rightarrow> Inr (Some err, w)
           | None \<Rightarrow>
               (let w1 = w\<lparr>agent_services := agent_services w - {buildID instance}\<rparr>
                in case map_of (ttl_entries (csd w1)) (buildID instance) of
                     None \<Rightarrow> Inr (None, w1)
                   | Some stopChanel \<Rightarrow>
                       (case close_chan stopChanel (chans w1) of
                          Inl p \<Rightarrow> Inl p
                        | Inr cs \<Rightarrow>
                            Inr (None,
                                 w1\<lparr>csd := (csd w1)\<lparr>ttl :=
                                        map_option (AList.delete (buildID instance))
                                          (ttl (csd w1))\<rparr>,
                                    chans := cs\<rparr>)))))"

subsection \<open>Sequences of operations\<close>

datatype op =
    OpInit URL "error option"
  | OpRegister ServiceInstance "error option"
  | OpUpdate ServiceInstance "error option" "error option"
  | OpUnregister ServiceInstance "error option"
  | OpDestroy

fun apply_op :: "constants \<Rightarrow> op \<Rightarrow> world \<Rightarrow> panic + world" where
  "apply_op K (OpInit u e) w = Inr (snd (Init w u e))"
| "apply_op K (OpRegister i e) w = map_sum id (\<lambda>(r, w', i'). w') (Register K w i e)"
| "apply_op K (OpUpdate i d e) w = map_sum id (\<lambda>(r, w', i'). w') (Update K w i d e)"
| "apply_op K (OpUnregister i d) w = map_sum id snd (Unregister w i d)"
| "apply_op K OpDestroy w = map_sum id snd (Destroy w)"

text \<open>A caller goes on after an error result; a panic ends the run.\<close>

fun run :: "constants \<Rightarrow> op list \<Rightarrow> world \<Rightarrow> panic + world" where
  "run K [] w = Inr w"
| "run K (x # xs) w = (case apply_op K x w of Inl p \<Rightarrow> Inl p | Inr w' \<Rightarrow> run K xs w')"

text \<open>The keys the adapter holds a stop signal for, and the keys of the heartbeat
  goroutines whose stop channel is still open.\<close>

definition heartbeat_keys :: "world \<Rightarrow> string set" where
  "heartbeat_keys w = fst ` set (ttl_entries (csd w))"

definition active_heartbeats :: "world \<Rightarrow> heartbeat list" where
  "active_heartbeats w =
     filter (\<lambda>t. hb_stopChan t < length (chans w) \<and> chans w ! hb_stopChan t = ChanOpen)
       (goroutines w)"

definition active_keys :: "world \<Rightarrow> string set" where
  "active_keys w = hb_checkID ` set (active_heartbeats w)"

text \<open>The active heartbeat tasks of one key.\<close>

definition tasks_of :: "string \<Rightarrow> world \<Rightarrow> heartbeat list" where
  "tasks_of k w = filter (\<lambda>t. hb_checkID t = k) (active_heartbeats w)"

definition task_count :: "string \<Rightarrow> world \<Rightarrow> nat" where
  "task_count k w = length (tasks_of k w)"

subsection \<open>Heartbeat loop\<close>

text \<open>The goroutine of \<^verbatim>\<open>registerTtl\<close> is a \<^verbatim>\<open>for\<close> around a \<^verbatim>\<open>select\<close> on
  \<^verbatim>\<open>timer.C\<close> and on the stop channel. Each pass of the loop is given what the
  \<^verbatim>\<open>select\<close> finds: whether the timer has fired, whether the stop channel is
  closed (a closed channel is always ready; nothing is ever sent on it), which case
  the runtime takes when both are ready, and, for the timer case, the client the
  struct holds at that moment and the error of \<^verbatim>\<open>PassTTL\<close>.\<close>

record select_ready =
  timer_fired :: bool
  stop_closed :: bool
  prefer_stop :: bool
  client_now :: "unit option"
  pass_err :: "error option"

text \<open>Go's \<^verbatim>\<open>select\<close>: with one case ready that case runs; with both ready the
  runtime picks one of them, with no priority between them; with neither ready the
  goroutine stays blocked.\<close>

datatype select_case = CaseTimer | CaseStop | CaseBlocked

definition select_choice :: "select_ready \<Rightarrow> select_case" where
  "select_choice r =
     (if timer_fired r \<and> stop_closed r then (if prefer_stop r then CaseStop else CaseTimer)
      else if stop_closed r then CaseStop
      else if timer_fired r then CaseTimer
      else CaseBlocked)"

datatype hb_action = TimerReset Duration | PassTTL string | LogWarn | LogDebug | LogInfo

datatype hb_status = Running | Returned | Panicked panic

record hb_state =
  status :: hb_status
  actions :: "hb_action list"

definition select_step :: "heartbeat \<Rightarrow> select_ready \<Rightarrow> hb_state \<Rightarrow> hb_state" where
  "select_step t r s =
     (case select_choice r of
        CaseTimer \<Rightarrow>
          (case client_now r of
             None \<Rightarrow>
               s\<lparr>status := Panicked NilPointerDereference,
                 actions := actions s @ [TimerReset (hb_period t)]\<rparr>
           | Some client \<Rightarrow>
               (case pass_err r of
                  Some err \<Rightarrow>
                    s\<lparr>actions := actions s
                        @ [TimerReset (hb_period t), PassTTL (hb_checkID t), LogWarn]\<rparr>
                | None \<Rightarrow>
                    s\<lparr>actions := actions s
                        @ [TimerReset (hb_period t), PassTTL (hb_checkID t), LogDebug]\<rparr>))
      | CaseStop \<Rightarrow> s\<lparr>status := Returned, actions := actions s @ [LogInfo]\<rparr>
      | CaseBlocked \<Rightarrow> s)"

fun heartbeat_loop :: "heartbeat \<Rightarrow> select_ready list \<Rightarrow> hb_state \<Rightarrow> hb_state" where
  "heartbeat_loop t [] s = s"
| "heartbeat_loop t (r # rs) s =
     (if status s = Running then heartbeat_loop t rs (select_step t r s) else s)"

definition hb_start :: hb_state where
  "hb_start = \<lparr>status = Running, actions = []\<rparr>"

definition pass_calls :: "hb_state \<Rightarrow> nat" where
  "pass_calls s = length (filter (\<lambda>a. case a of PassTTL c \<Rightarrow> True | _ \<Rightarrow> False) (actions s))"

text \<open>What the \<^verbatim>\<open>select\<close> of the heartbeat task \<open>t\<close> finds in the state \<open>w\<close> of
  the adapter: its stop channel as the store has it, and the client of the struct.
  Whether the timer has fired, the case the runtime prefers and the error of the
  pass call are the arguments.\<close>

definition select_in ::
    "world \<Rightarrow> heartbeat \<Rightarrow> bool \<Rightarrow> bool \<Rightarrow> error option \<Rightarrow> select_ready" where
  "select_in w t fired prefer err =
     \<lparr>timer_fired = fired,
      stop_closed = (hb_stopChan t < length (chans w) \<and> chans w ! hb_stopChan t = ChanClosed),
      prefer_stop = prefer, client_now = consulClient (csd w), pass_err = err\<rparr>"

subsection \<open>Query and paging\<close>

record QueryOptions =
  WaitTime :: Duration

text \<open>The arguments of \<^verbatim>\<open>Health().Service(serviceName, csd.tag, true, opts)\<close>.\<close>

record health_query =
  q_service :: string
  q_tag :: string
  q_passingOnly :: bool
  q_opts :: QueryOptions

definition GetInstances_query :: "consulServiceDiscovery \<Rightarrow> string \<Rightarrow> health_query" where
  "GetInstances_query c serviceName =
     (let waitTime = div_int64 (url_WATCH_TIMEOUT (serviceUrl c)) 1000
      in \<lparr>q_service = serviceName, q_tag = tag c, q_passingOnly = True,
          q_opts = \<lparr>WaitTime = waitTime\<rparr>\<rparr>)"







subsection \<open>Invariants\<close>

text \<open>The stop channels the adapter holds are in the store, open, and one per key.\<close>

definition chan_inv :: "world \<Rightarrow> bool" where
  "chan_inv w \<longleftrightarrow>
     distinct (map fst (ttl_entries (csd w)))
     \<and> distinct (map snd (ttl_entries (csd w)))
     \<and> (\<forall>p \<in> set (ttl_entries (csd w)). snd p < length (chans w) \<and> chans w ! snd p = ChanOpen)"

text \<open>Heartbeats match registrations: there is a client and a map; the keys of the
  map are the keys the adapter believes registered; every channel a goroutine
  listens on is in the store; every key of the map has an open stop channel on
  which exactly one heartbeat goroutine listens, with that key as check id; and
  every heartbeat goroutine whose stop channel is open is that of an entry of the
  map.\<close>

definition hb_inv :: "world \<Rightarrow> bool" where
  "hb_inv w \<longleftrightarrow>
     consulClient (csd w) \<noteq> None \<and> ttl (csd w) \<noteq> None
     \<and> distinct (map fst (ttl_entries (csd w)))
     \<and> heartbeat_keys w = agent_services w
     \<and> (\<forall>t \<in> set (goroutines w). hb_stopChan t < length (chans w))
     \<and> (\<forall>p \<in> set (ttl_entries (csd w)).
           snd p < length (chans w) \<and> chans w ! snd p = ChanOpen
           \<and> map hb_checkID (filter (\<lambda>t. hb_stopChan t = snd p) (goroutines w)) = [fst p])
     \<and> (\<forall>t \<in> set (active_heartbeats w).
           (hb_checkID t, hb_stopChan t) \<in> set (ttl_entries (csd w)))"

text \<open>The operations under which heartbeats and registrations stay matched:
  \<open>Init\<close> and \<open>Unregister\<close> with any outcome; a \<open>Register\<close> that fails at the
  backend, or whose key has no heartbeat entry; an \<open>Update\<close> after which the
  instance is registered (its register call succeeded, or both calls failed on an
  instance that was registered) exactly if its key has a heartbeat entry.\<close>

fun op_ok :: "op \<Rightarrow> world \<Rightarrow> bool" where
  "op_ok (OpInit u e) w = True"
| "op_ok (OpRegister i e) w = (e \<noteq> None \<or> buildID i \<notin> heartbeat_keys w)"
| "op_ok (OpUnregister i d) w = True"
| "op_ok (OpUpdate i d e) w =
     ((e = None \<or> (d \<noteq> None \<and> buildID i \<in> heartbeat_keys w)) = (buildID i \<in> heartbeat_keys w))"
| "op_ok OpDestroy w = False"

fun admissible :: "constants \<Rightarrow> op list \<Rightarrow> world \<Rightarrow> bool" where
  "admissible K [] w = True"
| "admissible K (x # xs) w =
     (op_ok x w \<and> (case apply_op K x w of Inl p \<Rightarrow> True | Inr w' \<Rightarrow> admissible K xs w'))"

subsection \<open>Example values\<close>

definition ex_K :: constants where
  "ex_K = \<lparr>DEREGISTER_AFTER = ''consul-deregister-critical-service-after'',
           DEFAULT_DEREGISTER_TIME = ''20s''\<rparr>"

definition ex_url :: URL where
  "ex_url = \<lparr>url_CHECK_PASS_INTERVAL = 16000, url_WATCH_TIMEOUT = 60000, url_QUERY_TAG = []\<rparr>"

definition ex_instance :: ServiceInstance where
  "ex_instance = \<lparr>Id' = ''a'', ServiceName = ''svc'', Host = ''h'', Port = 80,
     Enable = True, Healthy = False, Metadata = Some Map.empty\<rparr>"

definition ex_entry_garbled :: ServiceEntry where
  "ex_entry_garbled =
     \<lparr>entry_Service = \<lparr>svc_ID = ''x'', svc_Service = ''svc'', svc_Address = ''h'', svc_Port = 80,
         svc_Meta = Some [enable \<mapsto> ''yes'']\<rparr>, entry_AggregatedStatus = ''critical''\<rparr>"

definition ex_ops :: "op list" where
  "ex_ops = [OpInit ex_url None, OpRegister ex_instance None]"

text \<open>The adapter after a successful \<open>Init\<close>, and after registering
  \<open>ex_instance\<close>.\<close>

definition ex_initialised :: world where
  "ex_initialised =
     \<lparr>csd = \<lparr>consulClient = Some (), serviceUrl = ex_url, checkPassInterval = 16000, tag = [],
             ttl = Some []\<rparr>,
      chans = [], goroutines = [], agent_services = {}\<rparr>"

definition ex_registered :: world where
  "ex_registered =
     \<lparr>csd = \<lparr>consulClient = Some (), serviceUrl = ex_url, checkPassInterval = 16000, tag = [],
             ttl = Some [(''id:a,serviceName:svc,host:h,port:80'', 0)]\<rparr>,
      chans = [ChanOpen],
      goroutines = [\<lparr>hb_checkID = ''id:a,serviceName:svc,host:h,port:80'', hb_stopChan = 0,
                      hb_period = 2000000000\<rparr>],
      agent_services = {''id:a,serviceName:svc,host:h,port:80''}\<rparr>"

text \<open>A check-pass interval of 73786976294840 ms, the least whose eighth in
  nanoseconds is beyond \<^verbatim>\<open>int64\<close>, and the adapter initialised with it.\<close>

definition ex_url_max :: URL where
  "ex_url_max = ex_url\<lparr>url_CHECK_PASS_INTERVAL := 73786976294840\<rparr>"

definition ex_max :: world where
  "ex_max = snd (Init (new_world ex_url) ex_url_max None)"

definition ex_max_registered :: world where
  "ex_max_registered =
     \<lparr>csd = \<lparr>consulClient = Some (), serviceUrl = ex_url_max,
             checkPassInterval = 73786976294840, tag = [],
             ttl = Some [(''id:a,serviceName:svc,host:h,port:80'', 0)]\<rparr>,
      chans = [ChanOpen],
      goroutines = [\<lparr>hb_checkID = ''id:a,serviceName:svc,host:h,port:80'', hb_stopChan = 0,
                      hb_period = 9223372036855000000\<rparr>],
      agent_services = {''id:a,serviceName:svc,host:h,port:80''}\<rparr>"




text \<open>The heartbeat task of \<open>ex_registered\<close>, and what its \<^verbatim>\<open>select\<close> can find: a
  tick whose pass fails, a tick whose pass succeeds, and the closed stop channel alone.\<close>

definition ex_task :: heartbeat where
  "ex_task = \<lparr>hb_checkID = ''id:a,serviceName:svc,host:h,port:80'', hb_stopChan = 0,
              hb_period = 2000000000\<rparr>"

definition tick_failed :: select_ready where
  "tick_failed = \<lparr>timer_fired = True, stop_closed = False, prefer_stop = False,
                  client_now = Some (), pass_err = Some (BackendError ''agent down'')\<rparr>"

definition tick_passed :: select_ready where
  "tick_passed = \<lparr>timer_fired = True, stop_closed = False, prefer_stop = False,
                  client_now = Some (), pass_err = None\<rparr>"

definition stop_signal :: select_ready where
  "stop_signal = \<lparr>timer_fired = False, stop_closed = True, prefer_stop = False,
                  client_now = Some (), pass_err = None\<rparr>"

text \<open>The adapter after \<open>ex_instance\<close> was registered and unregistered, and after it
  was registered twice and the adapter destroyed: the task of the first registration
  is \<open>ex_task\<close> in both.\<close>

definition ex_unregistered :: world where
  "ex_unregistered =
     \<lparr>csd = \<lparr>consulClient = Some (), serviceUrl = ex_url, checkPassInterval = 16000, tag = [],
             ttl = Some []\<rparr>,
      chans = [ChanClosed],
      goroutines = [ex_task],
      agent_services = {}\<rparr>"

definition ex_destroyed :: world where
  "ex_destroyed =
     \<lparr>csd = \<lparr>consulClient = None, serviceUrl = ex_url, checkPassInterval = 16000, tag = [],
             ttl = None\<rparr>,
      chans = [ChanOpen, ChanClosed],
      goroutines = [ex_task, ex_task\<lparr>hb_stopChan := 1\<rparr>],
      agent_services = {''id:a,serviceName:svc,host:h,port:80''}\<rparr>"

text \<open>A sequence of operations on the registered instance, and the key of that
  instance.\<close>

definition ex_seq :: "op list" where
  "ex_seq = [OpRegister ex_instance None, OpUpdate ex_instance None None,
             OpUnregister ex_instance (Some (BackendError ''agent down'')),
             OpInit ex_url (Some (BackendError ''no agent'')),
             OpRegister ex_instance (Some (BackendError ''agent down''))]"

definition ex_key :: string where
  "ex_key = ''id:a,serviceName:svc,host:h,port:80''"

section \<open>Properties\<close>

subsection \<open>Instance codec\<close>

lemma buildID_Metadata [simp]: "buildID (i\<lparr>Metadata := m\<rparr>) = buildID i"
  by (simp add: buildID_def)

lemma buildID_Healthy [simp]: "buildID (i\<lparr>Healthy := h\<rparr>) = buildID i"
  by (simp add: buildID_def)

lemma buildID_ex_instance: "buildID ex_instance = ''id:a,serviceName:svc,host:h,port:80''"
  by code_simp

text \<open>The derived key is longer than the id it contains.\<close>

lemma buildID_neq_Id: "buildID i \<noteq> Id' i"
proof
  assume "buildID i = Id' i"
  then have "length (buildID i) = length (Id' i)" by simp
  then show False by (simp add: buildID_def)
qed

lemma buildCheck_eq:
  "buildCheck K c i =
     (\<lparr>CheckID = buildID i,
       TTL = FormatInt (sint (div_int64 (checkPassInterval c) 1000)) @ ''s'',
       DeregisterCriticalServiceAfter =
         (if snd (map_index (Metadata i) (DEREGISTER_AFTER K))
             \<and> fst (map_index (Metadata i) (DEREGISTER_AFTER K)) \<noteq> []
          then fst (map_index (Metadata i) (DEREGISTER_AFTER K))
          else DEFAULT_DEREGISTER_TIME K)\<rparr>,
      i\<lparr>Metadata := Some (case Metadata i of None \<Rightarrow> Map.empty | Some f \<Rightarrow> f)\<rparr>)"
  by (cases "Metadata i")
    (simp_all add: buildCheck_def GetMetadata_def Let_def case_prod_beta map_index_def)

lemma snd_buildRegisterInstance:
  "snd (buildRegisterInstance K c i) =
     i\<lparr>Metadata := Some ((case Metadata i of None \<Rightarrow> Map.empty | Some f \<Rightarrow> f)
                           (enable \<mapsto> FormatBool (Enable i)))\<rparr>"
  by (cases "Metadata i")
    (simp_all add: buildRegisterInstance_def GetMetadata_def Let_def case_prod_beta buildCheck_eq)

lemma reg_fields:
  "reg_ID (fst (buildRegisterInstance K c i)) = buildID i"
  "reg_Name (fst (buildRegisterInstance K c i)) = ServiceName i"
  "reg_Address (fst (buildRegisterInstance K c i)) = Host i"
  "reg_Port (fst (buildRegisterInstance K c i)) = Port i"
  "reg_Meta (fst (buildRegisterInstance K c i)) =
     Some ((case Metadata i of None \<Rightarrow> Map.empty | Some f \<Rightarrow> f)(enable \<mapsto> FormatBool (Enable i)))"
  by (cases "Metadata i";
      simp add: buildRegisterInstance_def GetMetadata_def Let_def case_prod_beta buildCheck_eq)+

lemma ParseBool_FormatBool: "fst (ParseBool (FormatBool b)) = b"
  by (simp add: ParseBool_def FormatBool_def)

lemma encode_ignores_Healthy:
  "fst (buildRegisterInstance K c (i\<lparr>Healthy := h\<rparr>)) = fst (buildRegisterInstance K c i)"
  by (cases "Metadata i")
    (simp_all add: buildRegisterInstance_def GetMetadata_def Let_def case_prod_beta buildCheck_eq)

lemma decode_unparsable:
  "\<not> snd (ParseBool (fst (map_index (svc_Meta (entry_Service e)) enable)))
     \<longrightarrow> \<not> Enable (decode_entry e)"
  by (simp add: decode_entry_def Let_def ParseBool_def split: if_splits)

lemma decode_agent_entry:
  "decode_entry (agent_entry r st) =
     \<lparr>Id' = reg_ID r, ServiceName = reg_Name r, Host = reg_Address r, Port = reg_Port r,
      Enable = fst (ParseBool (fst (map_index (reg_Meta r) enable))),
      Healthy = (st = HealthPassing),
      Metadata = map_delete (reg_Meta r) enable\<rparr>"
  by (simp add: decode_entry_def agent_entry_def Let_def)

text \<open>
  C4, as the code has it. Encoding an instance with \<open>buildRegisterInstance\<close>, letting
  the agent list the stored registration, and decoding the entry reproduces
  serviceName, host, port and enable. The decoded id is the derived instance key
  \<open>buildID\<close>, which is never the instance's own id. The decoded metadata is the
  instance's metadata without the reserved \<open>enable\<close> key. The decoded healthy flag
  comes from the aggregated status alone; the registration does not depend on the
  instance's healthy flag, and encoding leaves that flag as it was. An entry whose
  \<open>enable\<close> value does not parse decodes to a disabled instance.
\<close>

theorem codec_roundtrip:
  "ServiceName (decode_entry (agent_entry (fst (buildRegisterInstance K c i)) st)) = ServiceName i
   \<and> Host (decode_entry (agent_entry (fst (buildRegisterInstance K c i)) st)) = Host i
   \<and> Port (decode_entry (agent_entry (fst (buildRegisterInstance K c i)) st)) = Port i
   \<and> Enable (decode_entry (agent_entry (fst (buildRegisterInstance K c i)) st)) = Enable i
   \<and> Id' (decode_entry (agent_entry (fst (buildRegisterInstance K c i)) st)) = buildID i
   \<and> buildID i \<noteq> Id' i
   \<and> Metadata (decode_entry (agent_entry (fst (buildRegisterInstance K c i)) st))
       = Some ((case Metadata i of None \<Rightarrow> Map.empty | Some f \<Rightarrow> f)(enable := None))
   \<and> \<not> snd (map_index
         (Metadata (decode_entry (agent_entry (fst (buildRegisterInstance K c i)) st))) enable)
   \<and> Healthy (decode_entry (agent_entry (fst (buildRegisterInstance K c i)) st))
       = (st = HealthPassing)
   \<and> fst (buildRegisterInstance K c (i\<lparr>Healthy := h\<rparr>)) = fst (buildRegisterInstance K c i)
   \<and> Healthy (snd (buildRegisterInstance K c i)) = Healthy i
   \<and> (\<not> snd (ParseBool (fst (map_index (svc_Meta (entry_Service e)) enable)))
        \<longrightarrow> \<not> Enable (decode_entry e))"
proof (intro conjI)
  show "Enable (decode_entry (agent_entry (fst (buildRegisterInstance K c i)) st)) = Enable i"
    by (simp add: decode_agent_entry reg_fields map_index_def ParseBool_FormatBool)
  show "buildID i \<noteq> Id' i"
    by (rule buildID_neq_Id)
  show "fst (buildRegisterInstance K c (i\<lparr>Healthy := h\<rparr>)) = fst (buildRegisterInstance K c i)"
    by (rule encode_ignores_Healthy)
  show "\<not> snd (ParseBool (fst (map_index (svc_Meta (entry_Service e)) enable)))
        \<longrightarrow> \<not> Enable (decode_entry e)"
    by (rule decode_unparsable)
  show "Healthy (snd (buildRegisterInstance K c i)) = Healthy i"
    by (simp add: snd_buildRegisterInstance split: option.splits)
qed (simp_all add: decode_agent_entry reg_fields map_index_def map_delete_def)

theorem codec_roundtrip_witness:
  "\<not> snd (ParseBool (fst (map_index (svc_Meta (entry_Service ex_entry_garbled)) enable)))
   \<and> \<not> Enable (decode_entry ex_entry_garbled)
   \<and> Id' (decode_entry (agent_entry
        (fst (buildRegisterInstance ex_K (newConsulServiceDiscovery ex_url) ex_instance))
        HealthPassing)) = ''id:a,serviceName:svc,host:h,port:80''"
proof -
  note t = codec_roundtrip [of ex_K "newConsulServiceDiscovery ex_url" ex_instance HealthPassing
    True ex_entry_garbled]
  have a: "\<not> snd (ParseBool (fst (map_index (svc_Meta (entry_Service ex_entry_garbled)) enable)))"
    by (simp add: ex_entry_garbled_def map_index_def ParseBool_def)
  from t a have b: "\<not> Enable (decode_entry ex_entry_garbled)"
    by blast
  from t have "Id' (decode_entry (agent_entry
        (fst (buildRegisterInstance ex_K (newConsulServiceDiscovery ex_url) ex_instance))
        HealthPassing)) = buildID ex_instance"
    by blast
  with a b show ?thesis
    by (simp add: buildID_ex_instance)
qed

text \<open>The claim as stated fails on the id: the instance with id \<open>a\<close> comes back with
  its derived key as id.\<close>

theorem codec_roundtrip_id_counterexample:
  "Id' (decode_entry (agent_entry
        (fst (buildRegisterInstance ex_K (newConsulServiceDiscovery ex_url) ex_instance))
        HealthPassing)) \<noteq> Id' ex_instance"
  by (simp add: decode_agent_entry reg_fields buildID_neq_Id)

text \<open>
  C9, as the code has it. \<open>buildRegisterInstance\<close> leaves id, serviceName, host,
  port, enable and healthy of the caller's instance as they were, and writes to the
  instance's metadata map: an instance with a metadata map has, after the call, that
  map with the reserved \<open>enable\<close> key set to the formatted enable flag and every
  other key as before; an instance whose metadata map is nil has, after the call, a
  map that holds the \<open>enable\<close> key alone.
\<close>

theorem buildRegisterInstance_caller_instance:
  "Id' (snd (buildRegisterInstance K c i)) = Id' i
   \<and> ServiceName (snd (buildRegisterInstance K c i)) = ServiceName i
   \<and> Host (snd (buildRegisterInstance K c i)) = Host i
   \<and> Port (snd (buildRegisterInstance K c i)) = Port i
   \<and> Enable (snd (buildRegisterInstance K c i)) = Enable i
   \<and> Healthy (snd (buildRegisterInstance K c i)) = Healthy i
   \<and> (Metadata i = None \<longrightarrow>
         Metadata (snd (buildRegisterInstance K c i))
           = Some [enable \<mapsto> FormatBool (Enable i)])
   \<and> (\<forall>f. Metadata i = Some f \<longrightarrow>
         Metadata (snd (buildRegisterInstance K c i))
           = Some (f(enable \<mapsto> FormatBool (Enable i))))"
  by (simp add: snd_buildRegisterInstance)

theorem buildRegisterInstance_caller_instance_witness:
  "Metadata ex_instance = Some Map.empty
   \<and> Metadata (snd (buildRegisterInstance ex_K (newConsulServiceDiscovery ex_url) ex_instance))
       = Some [enable \<mapsto> ''true'']
   \<and> Metadata (ex_instance\<lparr>Metadata := None\<rparr>) = None
   \<and> Metadata (snd (buildRegisterInstance ex_K (newConsulServiceDiscovery ex_url)
            (ex_instance\<lparr>Metadata := None\<rparr>)))
       = Some [enable \<mapsto> ''true'']"
  using buildRegisterInstance_caller_instance
      [of ex_K "newConsulServiceDiscovery ex_url" ex_instance]
    buildRegisterInstance_caller_instance
      [of ex_K "newConsulServiceDiscovery ex_url" "ex_instance\<lparr>Metadata := None\<rparr>"]
  by (simp add: ex_instance_def FormatBool_def)

text \<open>The claim as stated fails on every instance: the map the caller sees after the
  call is not the map it saw before, whether that was a map without the \<open>enable\<close>
  key or the nil map.\<close>

theorem buildRegisterInstance_metadata_counterexample:
  "Metadata (snd (buildRegisterInstance ex_K (newConsulServiceDiscovery ex_url) ex_instance))
     \<noteq> Metadata ex_instance
   \<and> Metadata (snd (buildRegisterInstance ex_K (newConsulServiceDiscovery ex_url)
         (ex_instance\<lparr>Metadata := None\<rparr>)))
     \<noteq> Metadata (ex_instance\<lparr>Metadata := None\<rparr>)"
  by (simp add: snd_buildRegisterInstance ex_instance_def)

subsection \<open>Stop channels\<close>

lemma chan_inv_cong:
  "ttl_entries (csd w') = ttl_entries (csd w) \<Longrightarrow> chans w' = chans w \<Longrightarrow> chan_inv w' = chan_inv w"
  by (simp add: chan_inv_def)

lemma close_chan_open:
  "c < length cs \<Longrightarrow> cs ! c = ChanOpen \<Longrightarrow> close_chan c cs = Inr (cs[c := ChanClosed])"
  by (simp add: close_chan_def)

lemma close_all_open:
  "distinct ts \<Longrightarrow> \<forall>t \<in> set ts. t < length cs \<and> cs ! t = ChanOpen \<Longrightarrow>
     \<exists>cs'. close_all ts cs = Inr cs' \<and> length cs' = length cs
       \<and> (\<forall>j < length cs. cs' ! j = (if j \<in> set ts then ChanClosed else cs ! j))"
proof (induction ts arbitrary: cs)
  case Nil
  then show ?case by simp
next
  case (Cons t ts)
  let ?cs1 = "cs[t := ChanClosed]"
  from Cons.prems have c: "close_chan t cs = Inr ?cs1"
    by (simp add: close_chan_open)
  from Cons.prems have "distinct ts" and "\<forall>u \<in> set ts. u < length ?cs1 \<and> ?cs1 ! u = ChanOpen"
    by (auto simp: nth_list_update)
  from Cons.IH [OF this] obtain cs' where
    r: "close_all ts ?cs1 = Inr cs'" "length cs' = length ?cs1"
       "\<forall>j < length ?cs1. cs' ! j = (if j \<in> set ts then ChanClosed else ?cs1 ! j)"
    by blast
  from r(3) have "\<forall>j < length cs. cs' ! j = (if j \<in> set (t # ts) then ChanClosed else cs ! j)"
    by (auto simp: nth_list_update)
  with c r(1,2) show ?case by simp
qed

lemma snd_set_update: "snd ` set (AList.update k v al) \<subseteq> insert v (snd ` set al)"
  by (induction al) auto

lemma distinct_snd_update:
  "distinct (map snd al) \<Longrightarrow> v \<notin> snd ` set al \<Longrightarrow> distinct (map snd (AList.update k v al))"
proof (induction al)
  case Nil
  then show ?case by simp
next
  case (Cons p al)
  then show ?case
    using snd_set_update [of k v al] by (cases p) (auto simp: image_iff)
qed

lemma distinct_snd_delete:
  "distinct (map snd al) \<Longrightarrow> distinct (map snd (AList.delete k al))"
  by (simp add: AList.delete_eq distinct_map_filter)

lemma set_delete: "set (AList.delete k al) = {p \<in> set al. fst p \<noteq> k}"
  by (auto simp: AList.delete_eq)

lemma chan_inv_new_world: "chan_inv (new_world u0)"
  by (simp add: chan_inv_def new_world_def newConsulServiceDiscovery_def ttl_entries_def)

lemma chan_inv_Init: "chan_inv w \<Longrightarrow> chan_inv (snd (Init w u e))"
  by (simp add: chan_inv_def Init_def Let_def ttl_entries_def split: option.splits)

lemma chan_inv_registerTtl:
  assumes "chan_inv w" and "registerTtl w i = Inr (r, w')"
  shows "chan_inv w'"
proof -
  from assms(2) obtain m where m: "ttl (csd w) = Some m"
    and w': "ttl_entries (csd w') = AList.update (buildID i) (length (chans w)) m"
            "chans w' = chans w @ [ChanOpen]"
    by (auto simp: registerTtl_def make_chan_def Let_def ttl_entries_def split: option.splits)
  from assms(1) m have inv: "distinct (map fst m)" "distinct (map snd m)"
    "\<forall>p \<in> set m. snd p < length (chans w) \<and> chans w ! snd p = ChanOpen"
    by (simp_all add: chan_inv_def ttl_entries_def)
  from inv(3) have fresh: "length (chans w) \<notin> snd ` set m" by auto
  have "\<forall>p \<in> set (AList.update (buildID i) (length (chans w)) m).
          snd p < length (chans w @ [ChanOpen]) \<and> (chans w @ [ChanOpen]) ! snd p = ChanOpen"
  proof
    fix p assume "p \<in> set (AList.update (buildID i) (length (chans w)) m)"
    then have "snd p \<in> insert (length (chans w)) (snd ` set m)"
      using snd_set_update [of "buildID i" "length (chans w)" m] by blast
    then consider "snd p = length (chans w)" | q where "q \<in> set m" "snd p = snd q"
      by auto
    then show "snd p < length (chans w @ [ChanOpen]) \<and> (chans w @ [ChanOpen]) ! snd p = ChanOpen"
    proof cases
      case 1
      then show ?thesis by simp
    next
      case 2
      with inv(3) have "snd p < length (chans w)" "chans w ! snd p = ChanOpen" by auto
      then show ?thesis by (simp add: nth_append)
    qed
  qed
  with inv fresh show ?thesis
    by (simp add: chan_inv_def w' distinct_update distinct_snd_update)
qed

lemma chan_inv_agent: "chan_inv (w\<lparr>agent_services := a\<rparr>) = chan_inv w"
  by (simp add: chan_inv_def)

lemma chan_inv_Register:
  "chan_inv w \<Longrightarrow> Register K w i e = Inr (r, w', i') \<Longrightarrow> chan_inv w'"
  by (auto simp: Register_def Let_def chan_inv_agent split: prod.splits option.splits sum.splits
      dest: chan_inv_registerTtl [rotated])

lemma Update_frame:
  "Update K w i d e = Inr (r, w', i') \<Longrightarrow>
     csd w' = csd w \<and> chans w' = chans w \<and> goroutines w' = goroutines w"
  by (auto simp: Update_def Let_def split: prod.splits option.splits)

lemma chan_inv_Update:
  "chan_inv w \<Longrightarrow> Update K w i d e = Inr (r, w', i') \<Longrightarrow> chan_inv w'"
  using Update_frame [of K w i d e r w' i'] chan_inv_cong [of w' w] by simp

lemma chan_inv_Unregister:
  assumes "chan_inv w" and "Unregister w i d = Inr (r, w')"
  shows "chan_inv w'"
proof (cases "d = None \<and> map_of (ttl_entries (csd w)) (buildID i) \<noteq> None")
  case False
  with assms(2) have "csd w' = csd w \<and> chans w' = chans w"
    by (auto simp: Unregister_def Let_def split: option.splits)
  with assms(1) show ?thesis
    using chan_inv_cong [of w' w] by simp
next
  case True
  then obtain ch where ch: "map_of (ttl_entries (csd w)) (buildID i) = Some ch" by auto
  then have mem: "(buildID i, ch) \<in> set (ttl_entries (csd w))" by (rule map_of_SomeD)
  with assms(1) have op: "ch < length (chans w)" "chans w ! ch = ChanOpen"
    by (auto simp: chan_inv_def)
  from assms(2) True ch op have
    w': "ttl_entries (csd w') = AList.delete (buildID i) (ttl_entries (csd w))"
        "chans w' = (chans w)[ch := ChanClosed]"
    by (auto simp: Unregister_def Let_def close_chan_def ttl_entries_def split: option.splits)
  have "\<forall>p \<in> set (AList.delete (buildID i) (ttl_entries (csd w))).
          snd p < length (chans w) \<and> (chans w)[ch := ChanClosed] ! snd p = ChanOpen"
  proof
    fix p assume "p \<in> set (AList.delete (buildID i) (ttl_entries (csd w)))"
    then have pm: "p \<in> set (ttl_entries (csd w))" "fst p \<noteq> buildID i"
      by (auto simp: set_delete)
    obtain k c where p: "p = (k, c)"
      by (cases p)
    with pm have k: "(k, c) \<in> set (ttl_entries (csd w))" "k \<noteq> buildID i"
      by simp_all
    with assms(1) have c: "c < length (chans w)" "chans w ! c = ChanOpen"
      by (auto simp: chan_inv_def)
    from assms(1) have "distinct (map snd (ttl_entries (csd w)))" by (simp add: chan_inv_def)
    with k mem have "c \<noteq> ch"
      by (metis distinct_map eq_key_imp_eq_value inj_on_def snd_conv fst_conv)
    with c p show "snd p < length (chans w) \<and> (chans w)[ch := ChanClosed] ! snd p = ChanOpen"
      by simp
  qed
  with assms(1) show ?thesis
    by (simp add: chan_inv_def w' distinct_delete distinct_snd_delete)
qed

lemma Destroy_ok:
  assumes "chan_inv w"
  shows "\<exists>w'. Destroy w = Inr (None, w')"
proof -
  from assms close_all_open [of "map snd (ttl_entries (csd w))" "chans w"]
  obtain cs' where "close_all (map snd (ttl_entries (csd w))) (chans w) = Inr cs'"
    by (auto simp: chan_inv_def)
  then show ?thesis
    by (simp add: Destroy_def Let_def ttl_entries_def)
qed

lemma chan_inv_Destroy:
  "Destroy w = Inr (r, w') \<Longrightarrow> chan_inv w'"
  by (auto simp: Destroy_def Let_def chan_inv_def ttl_entries_def split: sum.splits)

lemma chan_inv_apply_op:
  "chan_inv w \<Longrightarrow> apply_op K x w = Inr w' \<Longrightarrow> chan_inv w'"
proof (cases x)
  case (OpInit u e)
  then show "chan_inv w \<Longrightarrow> apply_op K x w = Inr w' \<Longrightarrow> chan_inv w'"
    using chan_inv_Init [of w u e] by auto
next
  case (OpRegister i e)
  then show "chan_inv w \<Longrightarrow> apply_op K x w = Inr w' \<Longrightarrow> chan_inv w'"
    by (cases "Register K w i e") (auto dest: chan_inv_Register)
next
  case (OpUpdate i d e)
  then show "chan_inv w \<Longrightarrow> apply_op K x w = Inr w' \<Longrightarrow> chan_inv w'"
    by (cases "Update K w i d e") (auto dest: chan_inv_Update)
next
  case (OpUnregister i d)
  then show "chan_inv w \<Longrightarrow> apply_op K x w = Inr w' \<Longrightarrow> chan_inv w'"
    by (cases "Unregister w i d") (auto dest: chan_inv_Unregister)
next
  case OpDestroy
  then show "chan_inv w \<Longrightarrow> apply_op K x w = Inr w' \<Longrightarrow> chan_inv w'"
    by (cases "Destroy w") (auto dest: chan_inv_Destroy)
qed

lemma chan_inv_run:
  "chan_inv w \<Longrightarrow> run K xs w = Inr w' \<Longrightarrow> chan_inv w'"
proof (induction xs arbitrary: w)
  case Nil
  then show ?case by simp
next
  case (Cons x xs)
  then show ?case
    by (auto split: sum.splits dest: chan_inv_apply_op)
qed

subsection \<open>Register, Update, Unregister, Destroy\<close>

lemma run_ex_initialised: "run ex_K [OpInit ex_url None] (new_world ex_url) = Inr ex_initialised"
  by (simp add: Init_def new_world_def newConsulServiceDiscovery_def ex_initialised_def ex_url_def)

lemma run_ex_ops: "run ex_K ex_ops (new_world ex_url) = Inr ex_registered"
  by code_simp

lemma ServiceName_snd_buildRegisterInstance [simp]:
  "ServiceName (snd (buildRegisterInstance K c i)) = ServiceName i"
  by (simp add: snd_buildRegisterInstance split: option.splits)

lemma buildID_snd_buildRegisterInstance [simp]:
  "buildID (snd (buildRegisterInstance K c i)) = buildID i"
  by (simp add: snd_buildRegisterInstance split: option.splits)

lemma registerTtl_snd_buildRegisterInstance [simp]:
  "registerTtl w (snd (buildRegisterInstance K c i)) = registerTtl w i"
  by (simp add: registerTtl_def Let_def case_prod_beta split: option.splits)

lemma Register_eq:
  "Register K w i e =
     (case consulClient (csd w) of
        None \<Rightarrow> Inl NilPointerDereference
      | Some client \<Rightarrow>
          (case e of
             Some err \<Rightarrow>
               Inr (Some (WithMessage err
                      (''consul could not register the instance. '' @ ServiceName i)),
                    w, snd (buildRegisterInstance K (csd w) i))
           | None \<Rightarrow>
               (case registerTtl (w\<lparr>agent_services := insert (buildID i) (agent_services w)\<rparr>) i of
                  Inl p \<Rightarrow> Inl p
                | Inr (r, w') \<Rightarrow> Inr (r, w', snd (buildRegisterInstance K (csd w) i)))))"
  by (simp add: Register_def Let_def case_prod_beta reg_fields
      split: option.splits sum.splits)

lemma Update_eq:
  "Update K w i d e =
     (case consulClient (csd w) of
        None \<Rightarrow> Inl NilPointerDereference
      | Some client \<Rightarrow>
          (let w1 = (case d of
                       None \<Rightarrow> w\<lparr>agent_services := agent_services w - {buildID i}\<rparr>
                     | Some err \<Rightarrow> w)
           in case e of
                None \<Rightarrow>
                  Inr (None, w1\<lparr>agent_services := insert (buildID i) (agent_services w1)\<rparr>,
                       snd (buildRegisterInstance K (csd w) i))
              | Some err \<Rightarrow> Inr (Some err, w1, snd (buildRegisterInstance K (csd w) i))))"
  by (simp add: Update_def Let_def case_prod_beta reg_fields
      split: option.splits sum.splits)

text \<open>
  C2. Whenever the backend register call of \<open>Register\<close> is made (the client is not
  nil) and fails with \<open>err\<close>, \<open>Register\<close> returns \<open>err\<close> wrapped with the
  message and the service name, and the adapter and the runtime are exactly as
  before: the map from instance key to stop signal has no new entry, no channel was
  made and no heartbeat goroutine was started.
\<close>

theorem Register_backend_failure:
  "consulClient (csd w) \<noteq> None \<Longrightarrow>
     Register K w i (Some err)
       = Inr (Some (WithMessage err (''consul could not register the instance. '' @ ServiceName i)),
              w, snd (buildRegisterInstance K (csd w) i))"
  by (auto simp: Register_eq)

theorem Register_backend_failure_witness:
  "consulClient (csd ex_initialised) \<noteq> None
   \<and> Register ex_K ex_initialised ex_instance (Some (BackendError ''agent down''))
       = Inr (Some (WithMessage (BackendError ''agent down'')
                     ''consul could not register the instance. svc''),
              ex_initialised, ex_instance\<lparr>Metadata := Some [enable \<mapsto> ''true'']\<rparr>)"
proof -
  have c: "consulClient (csd ex_initialised) \<noteq> None"
    by (simp add: ex_initialised_def)
  have "snd (buildRegisterInstance ex_K (csd ex_initialised) ex_instance)
          = ex_instance\<lparr>Metadata := Some [enable \<mapsto> ''true'']\<rparr>"
    by (simp add: snd_buildRegisterInstance ex_instance_def FormatBool_def)
  with c Register_backend_failure [OF c, of ex_K ex_instance "BackendError ''agent down''"]
  show ?thesis
    by (simp add: ex_instance_def)
qed

text \<open>
  C10. After \<open>Destroy\<close> has returned, the backend client and the heartbeat map are
  nil. Every \<open>Register\<close> on that state panics, whatever the instance and the
  backend's answer, at the call through the nil client; \<open>registerTtl\<close> on that
  state panics at the write to the nil map, and so does a \<open>Register\<close> whose
  backend call succeeds once \<open>Init\<close> has put a client back. On a state whose client
  and map are both not nil, \<open>Register\<close> returns a result.
\<close>

theorem Register_after_Destroy:
  "Destroy w = Inr (r, w') \<Longrightarrow>
     consulClient (csd w') = None \<and> ttl (csd w') = None
     \<and> Register K w' i e = Inl NilPointerDereference
     \<and> registerTtl w' i = Inl AssignNilMap
     \<and> Register K (snd (Init w' u None)) i None = Inl AssignNilMap
     \<and> (\<forall>w0. consulClient (csd w0) \<noteq> None \<and> ttl (csd w0) \<noteq> None
           \<longrightarrow> (\<exists>res. Register K w0 i e = Inr res))"
  by (auto simp: Destroy_def Let_def Register_eq registerTtl_def Init_def make_chan_def
      split: sum.splits option.splits)

lemma Destroy_ex_registered:
  "Destroy ex_registered =
     Inr (None, ex_registered\<lparr>csd := (csd ex_registered)\<lparr>consulClient := None, ttl := None\<rparr>,
                              chans := [ChanClosed]\<rparr>)"
  by (simp add: Destroy_def ex_registered_def ttl_entries_def close_chan_def)

theorem Register_after_Destroy_witness:
  "Destroy ex_registered =
     Inr (None, ex_registered\<lparr>csd := (csd ex_registered)\<lparr>consulClient := None, ttl := None\<rparr>,
                              chans := [ChanClosed]\<rparr>)
   \<and> Register ex_K
        (ex_registered\<lparr>csd := (csd ex_registered)\<lparr>consulClient := None, ttl := None\<rparr>,
                       chans := [ChanClosed]\<rparr>) ex_instance None
       = Inl NilPointerDereference
   \<and> (\<exists>res. Register ex_K ex_registered ex_instance None = Inr res)"
proof -
  note t = Register_after_Destroy [OF Destroy_ex_registered, of ex_K ex_instance None ex_url]
  have "consulClient (csd ex_registered) \<noteq> None \<and> ttl (csd ex_registered) \<noteq> None"
    by (simp add: ex_registered_def)
  with t have "\<exists>res. Register ex_K ex_registered ex_instance None = Inr res"
    by blast
  with t Destroy_ex_registered show ?thesis
    by blast
qed

lemma map_of_ttl_delete:
  "map_of (AList.delete k al) k' = (if k' = k then None else map_of al k')"
  by (simp add: delete_conv')

lemma Unregister_failure:
  "consulClient (csd w) \<noteq> None \<Longrightarrow> Unregister w i (Some err) = Inr (Some err, w)"
  by (auto simp: Unregister_def)

lemma Unregister_absent:
  "consulClient (csd w) \<noteq> None \<Longrightarrow> map_of (ttl_entries (csd w)) (buildID i) = None \<Longrightarrow>
     Unregister w i None = Inr (None, w\<lparr>agent_services := agent_services w - {buildID i}\<rparr>)"
  by (auto simp: Unregister_def Let_def)

lemma Unregister_present:
  "consulClient (csd w) \<noteq> None \<Longrightarrow> map_of (ttl_entries (csd w)) (buildID i) = Some ch \<Longrightarrow>
   ch < length (chans w) \<Longrightarrow> chans w ! ch = ChanOpen \<Longrightarrow>
     Unregister w i None
       = Inr (None,
           w\<lparr>agent_services := agent_services w - {buildID i},
             csd := (csd w)\<lparr>ttl := map_option (AList.delete (buildID i)) (ttl (csd w))\<rparr>,
             chans := (chans w)[ch := ChanClosed]\<rparr>)"
  by (auto simp: Unregister_def Let_def close_chan_def)

lemma ttl_entries_delete:
  "ttl_entries (c\<lparr>ttl := map_option (AList.delete k) (ttl c)\<rparr>) = AList.delete k (ttl_entries c)"
  by (simp add: ttl_entries_def split: option.splits)

text \<open>
  C3. In every state the adapter reaches from its construction by any operations,
  with a client to make the backend call through: when the backend deregister call
  fails, \<open>Unregister\<close> returns that error and the whole state, the heartbeat map
  included, is unchanged; when the backend call succeeds, \<open>Unregister\<close> returns
  success, the instance's key has no heartbeat entry afterwards, the entries of all
  other keys are as before, and the stop channel the key had, which was open, is
  closed; with no entry for the key it still returns success and leaves the map and
  the channels as they were.
\<close>

theorem Unregister_results:
  assumes "run K xs (new_world u0) = Inr w" and "consulClient (csd w) \<noteq> None"
  shows "Unregister w i (Some err) = Inr (Some err, w)
    \<and> (\<exists>w'. Unregister w i None = Inr (None, w')
          \<and> agent_services w' = agent_services w - {buildID i}
          \<and> goroutines w' = goroutines w
          \<and> map_of (ttl_entries (csd w')) (buildID i) = None
          \<and> (\<forall>k. k \<noteq> buildID i \<longrightarrow>
                map_of (ttl_entries (csd w')) k = map_of (ttl_entries (csd w)) k)
          \<and> (\<forall>ch. map_of (ttl_entries (csd w)) (buildID i) = Some ch \<longrightarrow>
                ch < length (chans w) \<and> chans w ! ch = ChanOpen
                \<and> chans w' = (chans w)[ch := ChanClosed])
          \<and> (map_of (ttl_entries (csd w)) (buildID i) = None \<longrightarrow>
                csd w' = csd w \<and> chans w' = chans w))"
proof (intro conjI)
  from assms(2) show "Unregister w i (Some err) = Inr (Some err, w)"
    by (rule Unregister_failure)
  from assms(1) have inv: "chan_inv w"
    using chan_inv_run [OF chan_inv_new_world] by blast
  show "\<exists>w'. Unregister w i None = Inr (None, w')
          \<and> agent_services w' = agent_services w - {buildID i}
          \<and> goroutines w' = goroutines w
          \<and> map_of (ttl_entries (csd w')) (buildID i) = None
          \<and> (\<forall>k. k \<noteq> buildID i \<longrightarrow>
                map_of (ttl_entries (csd w')) k = map_of (ttl_entries (csd w)) k)
          \<and> (\<forall>ch. map_of (ttl_entries (csd w)) (buildID i) = Some ch \<longrightarrow>
                ch < length (chans w) \<and> chans w ! ch = ChanOpen
                \<and> chans w' = (chans w)[ch := ChanClosed])
          \<and> (map_of (ttl_entries (csd w)) (buildID i) = None \<longrightarrow>
                csd w' = csd w \<and> chans w' = chans w)"
  proof (cases "map_of (ttl_entries (csd w)) (buildID i)")
    case None
    with assms(2) show ?thesis
      by (simp add: Unregister_absent)
  next
    case (Some ch)
    then have "(buildID i, ch) \<in> set (ttl_entries (csd w))"
      by (rule map_of_SomeD)
    with inv have op: "ch < length (chans w)" "chans w ! ch = ChanOpen"
      by (auto simp: chan_inv_def)
    from assms(2) Some op show ?thesis
      by (simp add: Unregister_present ttl_entries_delete map_of_ttl_delete)
  qed
qed

theorem Unregister_results_witness:
  "run ex_K ex_ops (new_world ex_url) = Inr ex_registered
   \<and> consulClient (csd ex_registered) \<noteq> None
   \<and> Unregister ex_registered ex_instance (Some (BackendError ''agent down''))
       = Inr (Some (BackendError ''agent down''), ex_registered)
   \<and> (\<exists>w'. Unregister ex_registered ex_instance None = Inr (None, w')
         \<and> map_of (ttl_entries (csd w')) (buildID ex_instance) = None)"
proof -
  have c: "consulClient (csd ex_registered) \<noteq> None"
    by (simp add: ex_registered_def)
  from Unregister_results [OF run_ex_ops c, of ex_instance "BackendError ''agent down''"]
  have "Unregister ex_registered ex_instance (Some (BackendError ''agent down''))
          = Inr (Some (BackendError ''agent down''), ex_registered)"
    and "\<exists>w'. Unregister ex_registered ex_instance None = Inr (None, w')
         \<and> map_of (ttl_entries (csd w')) (buildID ex_instance) = None"
    by blast+
  with c run_ex_ops show ?thesis
    by blast
qed

subsection \<open>Durations\<close>

lemma sdiv_pos_bounds:
  fixes k :: int
  assumes "0 < l"
  shows "(0 \<le> k \<longrightarrow> 0 \<le> k sdiv l \<and> k sdiv l \<le> k)
       \<and> (k \<le> 0 \<longrightarrow> k \<le> k sdiv l \<and> k sdiv l \<le> 0)"
proof -
  have a: "0 \<le> \<bar>k\<bar> div l"
    using assms by (simp add: pos_imp_zdiv_nonneg_iff)
  have b: "\<bar>k\<bar> div l \<le> \<bar>k\<bar>"
  proof (cases "k = 0")
    case True
    then show ?thesis by simp
  next
    case False
    then have "0 < \<bar>k\<bar>" by simp
    then show ?thesis by (rule int_div_le_self)
  qed
  have "k sdiv l = sgn k * (\<bar>k\<bar> div l)"
    using assms by (simp add: signed_divide_int_def)
  with a b show ?thesis
    by (auto simp: sgn_if)
qed

lemma sint_div_int64:
  assumes "0 < sint b"
  shows "sint (div_int64 a b) = sint a sdiv sint b"
proof -
  have "- (2 ^ 63) \<le> sint a" "sint a < 2 ^ 63"
    using sint_ge [of a] sint_lt [of a] by simp_all
  with sdiv_pos_bounds [OF assms, of "sint a"]
  have "- (2 ^ 63) \<le> sint a sdiv sint b \<and> sint a sdiv sint b < 2 ^ 63"
    by (cases "0 \<le> sint a") auto
  then show ?thesis
    by (simp add: div_int64_def sint_sbintrunc' signed_take_bit_int_eq_self)
qed



lemma sint_Millisecond: "sint Millisecond = 1000000" by (simp add: Millisecond_def)

lemma sint_period:
  assumes "- (2 ^ 63) \<le> (sint T sdiv 8) * 1000000" and "(sint T sdiv 8) * 1000000 < 2 ^ 63"
  shows "sint (div_int64 T 8 * Millisecond) = (sint T sdiv 8) * 1000000"
proof -
  have "sint (div_int64 T 8) = sint T sdiv 8"
    using sint_div_int64 [of 8 T] by simp
  then have "sint (div_int64 T 8 * Millisecond)
               = signed_take_bit 63 ((sint T sdiv 8) * 1000000)"
    by (simp add: sint_word_mult sint_Millisecond)
  with assms show ?thesis
    by (simp add: signed_take_bit_int_eq_self)
qed

lemma registerTtl_result:
  assumes "registerTtl w i = Inr (r, w')"
  shows "hb_period (last (goroutines w')) = div_int64 (checkPassInterval (csd w)) 8 * Millisecond"
    and "hb_checkID (last (goroutines w')) = buildID i"
    and "map_of (ttl_entries (csd w')) (buildID i) = Some (hb_stopChan (last (goroutines w')))"
  using assms
  by (auto simp: registerTtl_def make_chan_def Let_def ttl_entries_def update_conv'
      split: option.splits)

lemma Register_success:
  "Register K w i None = Inr (r, w', i') \<Longrightarrow>
     registerTtl (w\<lparr>agent_services := insert (buildID i) (agent_services w)\<rparr>) i = Inr (r, w')"
  by (auto simp: Register_eq split: option.splits sum.splits)

lemma reg_Check_fields:
  "CheckID (reg_Check (fst (buildRegisterInstance K c i))) = buildID i"
  "TTL (reg_Check (fst (buildRegisterInstance K c i)))
     = FormatInt (sint (checkPassInterval c) sdiv 1000) @ ''s''"
  "DEREGISTER_AFTER K \<noteq> enable \<Longrightarrow>
     DeregisterCriticalServiceAfter (reg_Check (fst (buildRegisterInstance K c i)))
       = (if snd (map_index (Metadata i) (DEREGISTER_AFTER K))
             \<and> fst (map_index (Metadata i) (DEREGISTER_AFTER K)) \<noteq> []
          then fst (map_index (Metadata i) (DEREGISTER_AFTER K))
          else DEFAULT_DEREGISTER_TIME K)"
  using sint_div_int64 [of 1000 "checkPassInterval c"]
  by (cases "Metadata i";
      simp add: buildRegisterInstance_def GetMetadata_def Let_def case_prod_beta buildCheck_eq
        map_index_def)+

text \<open>
  C6, as the code has it. For every check-pass interval \<open>T\<close> (milliseconds) the TTL
  check attached to the registration has TTL \<open>T / 1000\<close> seconds (Go's truncating
  division, printed in decimal with the suffix \<open>s\<close>), and check id and service id
  equal to the derived instance key; its deregister-after-critical duration is read
  from the instance's metadata when the key is present with a non-empty value, else
  it is the default (the metadata key being another key than the reserved
  \<open>enable\<close> key, which is written before it is read). For every \<open>T\<close> a
  registration that succeeds starts a heartbeat task whose check id and stop-signal
  key are the derived instance key and whose period is \<open>T / 8\<close> times
  \<^verbatim>\<open>time.Millisecond\<close> in \<^verbatim>\<open>int64\<close> arithmetic; when \<open>T / 8\<close> milliseconds
  fits an \<^verbatim>\<open>int64\<close> of nanoseconds, that period is \<open>T / 8\<close> milliseconds.
\<close>

theorem heartbeat_period_and_check:
  "TTL (reg_Check (fst (buildRegisterInstance K c i)))
     = FormatInt (sint (checkPassInterval c) sdiv 1000) @ ''s''
   \<and> CheckID (reg_Check (fst (buildRegisterInstance K c i))) = buildID i
   \<and> reg_ID (fst (buildRegisterInstance K c i)) = buildID i
   \<and> (DEREGISTER_AFTER K \<noteq> enable \<longrightarrow>
        DeregisterCriticalServiceAfter (reg_Check (fst (buildRegisterInstance K c i)))
          = (if snd (map_index (Metadata i) (DEREGISTER_AFTER K))
                \<and> fst (map_index (Metadata i) (DEREGISTER_AFTER K)) \<noteq> []
             then fst (map_index (Metadata i) (DEREGISTER_AFTER K))
             else DEFAULT_DEREGISTER_TIME K))
   \<and> (\<forall>w r w' i'. Register K w i None = Inr (r, w', i') \<longrightarrow>
        hb_period (last (goroutines w')) = div_int64 (checkPassInterval (csd w)) 8 * Millisecond
        \<and> hb_checkID (last (goroutines w')) = buildID i
        \<and> map_of (ttl_entries (csd w')) (buildID i) = Some (hb_stopChan (last (goroutines w')))
        \<and> (- (2 ^ 63) \<le> (sint (checkPassInterval (csd w)) sdiv 8) * 1000000
             \<and> (sint (checkPassInterval (csd w)) sdiv 8) * 1000000 < 2 ^ 63
             \<longrightarrow> sint (hb_period (last (goroutines w')))
                   = (sint (checkPassInterval (csd w)) sdiv 8) * 1000000))"
proof (intro conjI allI impI)
  fix w r w' i'
  assume R: "Register K w i None = Inr (r, w', i')"
  note t = registerTtl_result [OF Register_success [OF R]]
  from t(1) show p: "hb_period (last (goroutines w'))
      = div_int64 (checkPassInterval (csd w)) 8 * Millisecond"
    by simp
  from t(2) show "hb_checkID (last (goroutines w')) = buildID i" .
  from t(3) show
    "map_of (ttl_entries (csd w')) (buildID i) = Some (hb_stopChan (last (goroutines w')))" .
  assume "- (2 ^ 63) \<le> (sint (checkPassInterval (csd w)) sdiv 8) * 1000000
             \<and> (sint (checkPassInterval (csd w)) sdiv 8) * 1000000 < 2 ^ 63"
  with p show "sint (hb_period (last (goroutines w')))
      = (sint (checkPassInterval (csd w)) sdiv 8) * 1000000"
    by (simp add: sint_period)
qed (simp_all add: reg_Check_fields reg_fields)

lemma snd_buildRegisterInstance_ex:
  "snd (buildRegisterInstance K c ex_instance) = ex_instance\<lparr>Metadata := Some [enable \<mapsto> ''true'']\<rparr>"
  by (simp add: snd_buildRegisterInstance ex_instance_def FormatBool_def)

lemma Register_ex_max:
  "Register ex_K ex_max ex_instance None
     = Inr (None, ex_max_registered, ex_instance\<lparr>Metadata := Some [enable \<mapsto> ''true'']\<rparr>)"
  by (simp add: Register_eq registerTtl_def make_chan_def ex_max_def Init_def new_world_def
      newConsulServiceDiscovery_def ex_url_max_def ex_url_def ex_max_registered_def buildID_ex_instance snd_buildRegisterInstance_ex
      div_int64_def Millisecond_def signed_divide_int_def)

text \<open>The claim as stated fails for a large interval: with \<open>T = 73786976294840\<close>
  the multiplication by \<^verbatim>\<open>time.Millisecond\<close> wraps, and the period is negative.\<close>

theorem heartbeat_period_overflow_counterexample:
  "Register ex_K ex_max ex_instance None
     = Inr (None, ex_max_registered, ex_instance\<lparr>Metadata := Some [enable \<mapsto> ''true'']\<rparr>)
   \<and> sint (hb_period (last (goroutines ex_max_registered))) = - 9223372036854551616
   \<and> sint (checkPassInterval (csd ex_max)) sdiv 8 * 1000000 = 9223372036855000000"
  by (simp add: Register_ex_max)
    (simp add: ex_max_registered_def ex_max_def Init_def ex_url_max_def signed_divide_int_def)

lemma Register_ex_initialised:
  "Register ex_K ex_initialised ex_instance None
     = Inr (None, ex_registered, ex_instance\<lparr>Metadata := Some [enable \<mapsto> ''true'']\<rparr>)"
  by (simp add: Register_eq registerTtl_def make_chan_def ex_initialised_def
      ex_registered_def buildID_ex_instance snd_buildRegisterInstance_ex
      div_int64_def Millisecond_def signed_divide_int_def)

text \<open>With \<open>T = 16000\<close> the period is 2000 ms and the TTL \<open>16s\<close>; with
  \<open>T = 73786976294840\<close>, where the period wraps, the TTL is still \<open>T / 1000\<close>
  seconds and the check id the derived key.\<close>

theorem heartbeat_period_and_check_witness:
  "Register ex_K ex_initialised ex_instance None
     = Inr (None, ex_registered, ex_instance\<lparr>Metadata := Some [enable \<mapsto> ''true'']\<rparr>)
   \<and> - (2 ^ 63) \<le> (sint (checkPassInterval (csd ex_initialised)) sdiv 8) * 1000000
   \<and> (sint (checkPassInterval (csd ex_initialised)) sdiv 8) * 1000000 < 2 ^ 63
   \<and> DEREGISTER_AFTER ex_K \<noteq> enable
   \<and> sint (hb_period (last (goroutines ex_registered))) = 2000 * 1000000
   \<and> TTL (reg_Check (fst (buildRegisterInstance ex_K (csd ex_initialised) ex_instance))) = ''16s''
   \<and> DeregisterCriticalServiceAfter
        (reg_Check (fst (buildRegisterInstance ex_K (csd ex_initialised) ex_instance))) = ''20s''
   \<and> TTL (reg_Check (fst (buildRegisterInstance ex_K (csd ex_max) ex_instance)))
       = FormatInt 73786976294 @ ''s''
   \<and> CheckID (reg_Check (fst (buildRegisterInstance ex_K (csd ex_max) ex_instance)))
       = ''id:a,serviceName:svc,host:h,port:80''"
proof -
  have T: "sint (checkPassInterval (csd ex_initialised)) = 16000"
    by (simp add: ex_initialised_def)
  have h: "- (2 ^ 63) \<le> (sint (checkPassInterval (csd ex_initialised)) sdiv 8) * 1000000
     \<and> (sint (checkPassInterval (csd ex_initialised)) sdiv 8) * 1000000 < 2 ^ 63"
    by (simp add: T signed_divide_int_def)
  have k: "DEREGISTER_AFTER ex_K \<noteq> enable"
    by (simp add: ex_K_def enable_def)
  have f: "FormatInt 16 = ''16''"
    by code_simp
  have m: "map_index (Metadata ex_instance) (DEREGISTER_AFTER ex_K) = ([], False)"
    by (simp add: map_index_def ex_instance_def)
  have Tmax: "sint (checkPassInterval (csd ex_max)) = 73786976294840"
    by (simp add: ex_max_def Init_def ex_url_max_def)
  note t = heartbeat_period_and_check [of ex_K "csd ex_initialised" ex_instance]
  note u = heartbeat_period_and_check [of ex_K "csd ex_max" ex_instance]
  from t Register_ex_initialised h
  have "sint (hb_period (last (goroutines ex_registered)))
      = (sint (checkPassInterval (csd ex_initialised)) sdiv 8) * 1000000"
    by blast
  then have a: "sint (hb_period (last (goroutines ex_registered))) = 2000 * 1000000"
    by (simp add: T signed_divide_int_def)
  from t have "TTL (reg_Check (fst (buildRegisterInstance ex_K (csd ex_initialised) ex_instance)))
      = FormatInt (sint (checkPassInterval (csd ex_initialised)) sdiv 1000) @ ''s''"
    by blast
  then have b:
    "TTL (reg_Check (fst (buildRegisterInstance ex_K (csd ex_initialised) ex_instance))) = ''16s''"
    by (simp add: T signed_divide_int_def f)
  have c: "DeregisterCriticalServiceAfter
        (reg_Check (fst (buildRegisterInstance ex_K (csd ex_initialised) ex_instance))) = ''20s''"
  proof -
    from t k have "DeregisterCriticalServiceAfter
        (reg_Check (fst (buildRegisterInstance ex_K (csd ex_initialised) ex_instance)))
        = (if snd (map_index (Metadata ex_instance) (DEREGISTER_AFTER ex_K))
              \<and> fst (map_index (Metadata ex_instance) (DEREGISTER_AFTER ex_K)) \<noteq> []
           then fst (map_index (Metadata ex_instance) (DEREGISTER_AFTER ex_K))
           else DEFAULT_DEREGISTER_TIME ex_K)"
      by blast
    moreover have "DEFAULT_DEREGISTER_TIME ex_K = ''20s''"
      by (simp add: ex_K_def)
    ultimately show ?thesis
      using m by simp
  qed
  from u have "TTL (reg_Check (fst (buildRegisterInstance ex_K (csd ex_max) ex_instance)))
      = FormatInt (sint (checkPassInterval (csd ex_max)) sdiv 1000) @ ''s''"
    by blast
  then have d: "TTL (reg_Check (fst (buildRegisterInstance ex_K (csd ex_max) ex_instance)))
       = FormatInt 73786976294 @ ''s''"
    by (simp add: Tmax signed_divide_int_def)
  from u have "CheckID (reg_Check (fst (buildRegisterInstance ex_K (csd ex_max) ex_instance)))
      = buildID ex_instance"
    by blast
  then have e: "CheckID (reg_Check (fst (buildRegisterInstance ex_K (csd ex_max) ex_instance)))
       = ''id:a,serviceName:svc,host:h,port:80''"
    by (simp add: buildID_ex_instance)
  from Register_ex_initialised h k a b c d e show ?thesis
    by blast
qed

lemma GetInstances_query_WaitTime:
  "WaitTime (q_opts (GetInstances_query c serviceName))
     = div_int64 (url_WATCH_TIMEOUT (serviceUrl c)) 1000"
  by (simp add: GetInstances_query_def)

text \<open>
  C7. \<open>GetInstances\<close> divides the watch timeout by 1000 and passes the quotient as
  a \<^verbatim>\<open>time.Duration\<close>, which counts nanoseconds: with the watch timeout 60000 ms
  the wait time of the query is 60 ns, not the 60000 ms (60000000000 ns) configured.
\<close>

theorem GetInstances_WaitTime_default:
  "url_WATCH_TIMEOUT (serviceUrl (csd ex_initialised)) = 60000
   \<and> WaitTime (q_opts (GetInstances_query (csd ex_initialised) ''svc'')) = 60
   \<and> (60000 :: Duration) * Millisecond = 60000000000"
  by (simp add: GetInstances_query_def ex_initialised_def ex_url_def div_int64_def
      Millisecond_def signed_divide_int_def)

subsection \<open>Paging\<close>







subsection \<open>Heartbeat loop\<close>

lemma select_choice_cases:
  "stop_closed r \<and> (\<not> timer_fired r \<or> prefer_stop r) \<longrightarrow> select_choice r = CaseStop"
  "stop_closed r \<and> timer_fired r \<and> \<not> prefer_stop r \<longrightarrow> select_choice r = CaseTimer"
  "\<not> stop_closed r \<longrightarrow> select_choice r \<noteq> CaseStop"
  by (simp_all add: select_choice_def)

lemma select_choice_open:
  "\<not> stop_closed r \<Longrightarrow> (select_choice r = CaseTimer) = timer_fired r"
  by (simp add: select_choice_def)

lemma select_step_CaseStop:
  "select_choice r = CaseStop \<Longrightarrow>
     select_step t r s = s\<lparr>status := Returned, actions := actions s @ [LogInfo]\<rparr>"
  by (simp add: select_step_def)

lemma select_step_failed_pass:
  "select_choice r = CaseTimer \<Longrightarrow> client_now r \<noteq> None \<Longrightarrow> pass_err r = Some err \<Longrightarrow>
     select_step t r s
       = s\<lparr>actions := actions s @ [TimerReset (hb_period t), PassTTL (hb_checkID t), LogWarn]\<rparr>"
  by (auto simp: select_step_def)

lemma select_step_no_stop:
  "select_choice r \<noteq> CaseStop \<Longrightarrow> client_now r \<noteq> None \<Longrightarrow>
     status (select_step t r s) = status s
     \<and> pass_calls (select_step t r s)
         = pass_calls s + (if select_choice r = CaseTimer then 1 else 0)"
  by (cases "select_choice r")
    (auto simp: select_step_def pass_calls_def split: option.splits)

lemma heartbeat_loop_no_stop:
  "status s = Running \<Longrightarrow> \<forall>r \<in> set rs. select_choice r \<noteq> CaseStop \<and> client_now r \<noteq> None \<Longrightarrow>
     status (heartbeat_loop t rs s) = Running
     \<and> pass_calls (heartbeat_loop t rs s)
         = pass_calls s + length (filter (\<lambda>r. select_choice r = CaseTimer) rs)"
proof (induction rs arbitrary: s)
  case Nil
  then show ?case by simp
next
  case (Cons r rs)
  from Cons.prems have r: "select_choice r \<noteq> CaseStop" "client_now r \<noteq> None" by simp_all
  note st = select_step_no_stop [OF r, of t s]
  from st Cons.prems have "status (select_step t r s) = Running" by simp
  from Cons.IH [OF this] Cons.prems st show ?case by simp
qed

lemma heartbeat_loop_stopped:
  "status s \<noteq> Running \<Longrightarrow> heartbeat_loop t rs s = s"
  by (cases rs) simp_all

lemma heartbeat_loop_append:
  "heartbeat_loop t (rs @ rs') s = heartbeat_loop t rs' (heartbeat_loop t rs s)"
proof (induction rs arbitrary: s)
  case Nil
  then show ?case by simp
next
  case (Cons r rs)
  then show ?case
    by (cases "status s = Running") (simp_all add: heartbeat_loop_stopped)
qed

lemma select_step_Returned:
  "status s = Running \<Longrightarrow> status (select_step t r s) = Returned \<Longrightarrow> stop_closed r"
  by (cases "select_choice r")
    (auto simp: select_step_def select_choice_def split: if_splits option.splits)

lemma select_step_Panicked:
  "status s = Running \<Longrightarrow> status (select_step t r s) = Panicked p \<Longrightarrow>
     p = NilPointerDereference \<and> timer_fired r \<and> client_now r = None"
  by (cases "select_choice r")
    (auto simp: select_step_def select_choice_def split: if_splits option.splits)

lemma heartbeat_loop_Returned:
  "status s = Running \<Longrightarrow> status (heartbeat_loop t rs s) = Returned \<Longrightarrow> \<exists>r \<in> set rs. stop_closed r"
proof (induction rs arbitrary: s)
  case Nil
  then show ?case by simp
next
  case (Cons r rs)
  show ?case
  proof (cases "status (select_step t r s) = Running")
    case True
    from Cons.prems have "status (heartbeat_loop t rs (select_step t r s)) = Returned" by simp
    from Cons.IH [OF True this] show ?thesis by auto
  next
    case False
    then have "heartbeat_loop t rs (select_step t r s) = select_step t r s"
      by (rule heartbeat_loop_stopped)
    with Cons.prems have "status (select_step t r s) = Returned" by simp
    with Cons.prems(1) have "stop_closed r" by (rule select_step_Returned)
    then show ?thesis by simp
  qed
qed

lemma heartbeat_loop_Panicked:
  "status s = Running \<Longrightarrow> status (heartbeat_loop t rs s) = Panicked p \<Longrightarrow>
     p = NilPointerDereference \<and> (\<exists>r \<in> set rs. timer_fired r \<and> client_now r = None)"
proof (induction rs arbitrary: s)
  case Nil
  then show ?case by simp
next
  case (Cons r rs)
  show ?case
  proof (cases "status (select_step t r s) = Running")
    case True
    from Cons.prems have "status (heartbeat_loop t rs (select_step t r s)) = Panicked p" by simp
    from Cons.IH [OF True this] show ?thesis by auto
  next
    case False
    then have "heartbeat_loop t rs (select_step t r s) = select_step t r s"
      by (rule heartbeat_loop_stopped)
    with Cons.prems have "status (select_step t r s) = Panicked p" by simp
    with Cons.prems(1) have "p = NilPointerDereference \<and> timer_fired r \<and> client_now r = None"
      by (rule select_step_Panicked)
    then show ?thesis by simp
  qed
qed

lemma heartbeat_loop_first_stop:
  assumes "\<forall>x \<in> set rs1. select_choice x \<noteq> CaseStop \<and> client_now x \<noteq> None"
    and "select_choice r = CaseStop"
  shows "status (heartbeat_loop t (rs1 @ r # rs2) hb_start) = Returned"
    and "actions (heartbeat_loop t (rs1 @ r # rs2) hb_start)
           = actions (heartbeat_loop t rs1 hb_start) @ [LogInfo]"
    and "pass_calls (heartbeat_loop t (rs1 @ r # rs2) hb_start)
           = length (filter (\<lambda>x. select_choice x = CaseTimer) rs1)"
proof -
  let ?s1 = "heartbeat_loop t rs1 hb_start"
  have "status hb_start = Running" by (simp add: hb_start_def)
  from heartbeat_loop_no_stop [OF this assms(1), of t]
  have s1: "status ?s1 = Running"
    "pass_calls ?s1 = length (filter (\<lambda>x. select_choice x = CaseTimer) rs1)"
    by (simp_all add: hb_start_def pass_calls_def)
  have "heartbeat_loop t (rs1 @ r # rs2) hb_start = heartbeat_loop t rs2 (select_step t r ?s1)"
    using s1(1) by (simp add: heartbeat_loop_append)
  also have "\<dots> = ?s1\<lparr>status := Returned, actions := actions ?s1 @ [LogInfo]\<rparr>"
    using assms(2) by (simp add: select_step_CaseStop heartbeat_loop_stopped)
  finally have e: "heartbeat_loop t (rs1 @ r # rs2) hb_start
      = ?s1\<lparr>status := Returned, actions := actions ?s1 @ [LogInfo]\<rparr>" .
  show "status (heartbeat_loop t (rs1 @ r # rs2) hb_start) = Returned"
    by (simp add: e)
  show "actions (heartbeat_loop t (rs1 @ r # rs2) hb_start) = actions ?s1 @ [LogInfo]"
    by (simp add: e)
  from s1(2) show "pass_calls (heartbeat_loop t (rs1 @ r # rs2) hb_start)
           = length (filter (\<lambda>x. select_choice x = CaseTimer) rs1)"
    by (simp add: e pass_calls_def)
qed

text \<open>
  C5, as the code has it. For every heartbeat task: a tick whose pass call returns
  an error re-arms the timer, makes the pass call, logs a warning and leaves the
  task running; over every sequence of passes of the loop in which the stop channel
  is not closed (and the client is there for the pass call), whatever the pass calls
  return, the task is still running at the end and has made one pass call for each
  tick. The task returns from the loop only if the stop channel was closed at one of
  the passes; the one other way it ends is the panic of a pass call made through a
  nil client. With the stop channel closed the \<^verbatim>\<open>select\<close> takes the stop case
  when the timer has not fired or the runtime prefers the stop case, and the timer
  case when the timer has fired and the runtime prefers it; with the stop channel
  open it never takes the stop case. At the first pass that takes the stop case the
  task returns, having logged and made no pass call at that pass, and whatever the
  timer and the channel offer afterwards, its pass calls are those of the ticks
  before that pass.
\<close>

theorem heartbeat_loop_continues_until_stopped:
  "(\<forall>(r :: select_ready) (s :: hb_state) err.
        select_choice r = CaseTimer \<and> client_now r \<noteq> None \<and> pass_err r = Some err \<longrightarrow>
        select_step t r s
          = s\<lparr>actions := actions s
                @ [TimerReset (hb_period t), PassTTL (hb_checkID t), LogWarn]\<rparr>)
   \<and> (\<forall>rs :: select_ready list. (\<forall>r \<in> set rs. \<not> stop_closed r \<and> client_now r \<noteq> None) \<longrightarrow>
        status (heartbeat_loop t rs hb_start) = Running
        \<and> pass_calls (heartbeat_loop t rs hb_start) = length (filter timer_fired rs))
   \<and> (\<forall>rs :: select_ready list.
        status (heartbeat_loop t rs hb_start) = Returned \<longrightarrow> (\<exists>r \<in> set rs. stop_closed r))
   \<and> (\<forall>(rs :: select_ready list) p.
        status (heartbeat_loop t rs hb_start) = Panicked p \<longrightarrow>
        p = NilPointerDereference \<and> (\<exists>r \<in> set rs. timer_fired r \<and> client_now r = None))
   \<and> (\<forall>r :: select_ready.
        (stop_closed r \<and> (\<not> timer_fired r \<or> prefer_stop r) \<longrightarrow> select_choice r = CaseStop)
        \<and> (stop_closed r \<and> timer_fired r \<and> \<not> prefer_stop r \<longrightarrow> select_choice r = CaseTimer)
        \<and> (\<not> stop_closed r \<longrightarrow> select_choice r \<noteq> CaseStop))
   \<and> (\<forall>(rs1 :: select_ready list) r rs2.
        (\<forall>x \<in> set rs1. select_choice x \<noteq> CaseStop \<and> client_now x \<noteq> None)
        \<and> select_choice r = CaseStop \<longrightarrow>
        status (heartbeat_loop t (rs1 @ r # rs2) hb_start) = Returned
        \<and> actions (heartbeat_loop t (rs1 @ r # rs2) hb_start)
            = actions (heartbeat_loop t rs1 hb_start) @ [LogInfo]
        \<and> pass_calls (heartbeat_loop t (rs1 @ r # rs2) hb_start)
            = length (filter (\<lambda>x. select_choice x = CaseTimer) rs1))"
proof (intro conjI allI impI)
  fix rs :: "select_ready list"
  assume a: "\<forall>r \<in> set rs. \<not> stop_closed r \<and> client_now r \<noteq> None"
  then have b: "\<forall>r \<in> set rs. select_choice r \<noteq> CaseStop \<and> client_now r \<noteq> None"
    by (simp add: select_choice_cases)
  from a have c: "filter (\<lambda>r. select_choice r = CaseTimer) rs = filter timer_fired rs"
    by (intro filter_cong) (simp_all add: select_choice_open)
  have "status hb_start = Running" by (simp add: hb_start_def)
  from heartbeat_loop_no_stop [OF this b, of t] c
  show "status (heartbeat_loop t rs hb_start) = Running"
    and "pass_calls (heartbeat_loop t rs hb_start) = length (filter timer_fired rs)"
    by (simp_all add: hb_start_def pass_calls_def)
next
  fix rs :: "select_ready list"
  assume "status (heartbeat_loop t rs hb_start) = Returned"
  with heartbeat_loop_Returned [of hb_start t rs] show "\<exists>r \<in> set rs. stop_closed r"
    by (simp add: hb_start_def)
next
  fix rs :: "select_ready list" and p
  assume "status (heartbeat_loop t rs hb_start) = Panicked p"
  with heartbeat_loop_Panicked [of hb_start t rs p]
  show "p = NilPointerDereference" and "\<exists>r \<in> set rs. timer_fired r \<and> client_now r = None"
    by (simp_all add: hb_start_def)
next
  fix rs1 :: "select_ready list" and r rs2
  assume "(\<forall>x \<in> set rs1. select_choice x \<noteq> CaseStop \<and> client_now x \<noteq> None)
        \<and> select_choice r = CaseStop"
  then have h: "\<forall>x \<in> set rs1. select_choice x \<noteq> CaseStop \<and> client_now x \<noteq> None"
    "select_choice r = CaseStop"
    by simp_all
  from heartbeat_loop_first_stop [OF h, of t rs2]
  show "status (heartbeat_loop t (rs1 @ r # rs2) hb_start) = Returned"
    and "actions (heartbeat_loop t (rs1 @ r # rs2) hb_start)
            = actions (heartbeat_loop t rs1 hb_start) @ [LogInfo]"
    and "pass_calls (heartbeat_loop t (rs1 @ r # rs2) hb_start)
            = length (filter (\<lambda>x. select_choice x = CaseTimer) rs1)"
    by simp_all
qed (simp_all add: select_step_failed_pass select_choice_def)

lemma select_choice_ex:
  "select_choice tick_failed = CaseTimer" "select_choice tick_passed = CaseTimer"
  "select_choice stop_signal = CaseStop"
  by (simp_all add: select_choice_def tick_failed_def tick_passed_def stop_signal_def)

theorem heartbeat_loop_continues_until_stopped_witness:
  "select_choice tick_failed = CaseTimer \<and> client_now tick_failed \<noteq> None
   \<and> pass_err tick_failed = Some (BackendError ''agent down'')
   \<and> select_step ex_task tick_failed hb_start
       = hb_start\<lparr>actions := actions hb_start
           @ [TimerReset (hb_period ex_task), PassTTL (hb_checkID ex_task), LogWarn]\<rparr>
   \<and> \<not> stop_closed tick_failed \<and> \<not> stop_closed tick_passed \<and> client_now tick_passed \<noteq> None
   \<and> status (heartbeat_loop ex_task [tick_failed, tick_passed] hb_start) = Running
   \<and> pass_calls (heartbeat_loop ex_task [tick_failed, tick_passed] hb_start) = 2
   \<and> select_choice tick_passed \<noteq> CaseStop \<and> select_choice tick_failed \<noteq> CaseStop
   \<and> select_choice stop_signal = CaseStop \<and> stop_closed stop_signal
   \<and> status (heartbeat_loop ex_task
         ([tick_failed, tick_passed] @ stop_signal # [tick_passed, tick_failed]) hb_start) = Returned
   \<and> pass_calls (heartbeat_loop ex_task
         ([tick_failed, tick_passed] @ stop_signal # [tick_passed, tick_failed]) hb_start) = 2"
proof -
  note t = heartbeat_loop_continues_until_stopped [of ex_task]
  have f: "select_choice tick_failed = CaseTimer \<and> client_now tick_failed \<noteq> None
     \<and> pass_err tick_failed = Some (BackendError ''agent down'')"
    by (simp add: select_choice_ex) (simp add: tick_failed_def)
  with t have a: "select_step ex_task tick_failed hb_start
       = hb_start\<lparr>actions := actions hb_start
           @ [TimerReset (hb_period ex_task), PassTTL (hb_checkID ex_task), LogWarn]\<rparr>"
    by blast
  have h: "\<forall>r \<in> set [tick_failed, tick_passed]. \<not> stop_closed r \<and> client_now r \<noteq> None"
    by (simp add: tick_failed_def tick_passed_def)
  from t h have b: "status (heartbeat_loop ex_task [tick_failed, tick_passed] hb_start) = Running
    \<and> pass_calls (heartbeat_loop ex_task [tick_failed, tick_passed] hb_start)
        = length (filter timer_fired [tick_failed, tick_passed])"
    by blast
  have n: "length (filter timer_fired [tick_failed, tick_passed]) = 2"
    by (simp add: tick_failed_def tick_passed_def)
  have g: "(\<forall>x \<in> set [tick_failed, tick_passed].
              select_choice x \<noteq> CaseStop \<and> client_now x \<noteq> None)
     \<and> select_choice stop_signal = CaseStop"
    by (simp add: select_choice_ex) (simp add: tick_failed_def tick_passed_def)
  with t have c: "status (heartbeat_loop ex_task
         ([tick_failed, tick_passed] @ stop_signal # [tick_passed, tick_failed]) hb_start) = Returned
    \<and> pass_calls (heartbeat_loop ex_task
         ([tick_failed, tick_passed] @ stop_signal # [tick_passed, tick_failed]) hb_start)
        = length (filter (\<lambda>x. select_choice x = CaseTimer) [tick_failed, tick_passed])"
    by blast
  have m: "length (filter (\<lambda>x. select_choice x = CaseTimer) [tick_failed, tick_passed]) = 2"
    by (simp add: select_choice_ex)
  have d: "stop_closed stop_signal"
    by (simp add: stop_signal_def)
  from f a h b n g c m d show ?thesis
    by (simp add: select_choice_ex)
qed

lemma run_ex_unregistered:
  "run ex_K [OpInit ex_url None, OpRegister ex_instance None, OpUnregister ex_instance None]
     (new_world ex_url) = Inr ex_unregistered"
  by code_simp

lemma run_ex_destroyed:
  "run ex_K [OpInit ex_url None, OpRegister ex_instance None, OpRegister ex_instance None,
       OpDestroy] (new_world ex_url) = Inr ex_destroyed"
  by code_simp

text \<open>The claim as stated fails in two ways. After \<open>Unregister\<close> has closed the stop
  channel of the task, a pass of the loop at which the timer has fired too, and the
  runtime takes the timer case, makes a pass call and leaves the task running. And
  the task of a first registration, whose stop channel a second registration of the
  same key has left open, ends at its next tick after \<open>Destroy\<close>, by the panic of
  the pass call through the nil client, with its stop channel still open.\<close>

theorem heartbeat_after_stop_counterexample:
  "run ex_K [OpInit ex_url None, OpRegister ex_instance None, OpUnregister ex_instance None]
     (new_world ex_url) = Inr ex_unregistered
   \<and> stop_closed (select_in ex_unregistered ex_task True False None)
   \<and> status (heartbeat_loop ex_task [select_in ex_unregistered ex_task True False None] hb_start)
       = Running
   \<and> pass_calls (heartbeat_loop ex_task [select_in ex_unregistered ex_task True False None]
         hb_start) = 1
   \<and> run ex_K [OpInit ex_url None, OpRegister ex_instance None, OpRegister ex_instance None,
       OpDestroy] (new_world ex_url) = Inr ex_destroyed
   \<and> \<not> stop_closed (select_in ex_destroyed ex_task True False None)
   \<and> status (heartbeat_loop ex_task [select_in ex_destroyed ex_task True False None] hb_start)
       = Panicked NilPointerDereference"
  by (intro conjI run_ex_unregistered run_ex_destroyed)
    (simp_all add: select_in_def ex_unregistered_def ex_destroyed_def ex_task_def
      select_step_def select_choice_def hb_start_def pass_calls_def)

subsection \<open>Heartbeats and registrations\<close>

lemma update_fresh:
  "k \<notin> fst ` set al \<Longrightarrow> AList.update k v al = al @ [(k, v)]"
  by (induction al) auto

lemma active_heartbeats_iff:
  "t \<in> set (active_heartbeats w) \<longleftrightarrow>
     t \<in> set (goroutines w) \<and> hb_stopChan t < length (chans w)
     \<and> chans w ! hb_stopChan t = ChanOpen"
  by (auto simp: active_heartbeats_def)

lemma hb_inv_cong:
  "csd w' = csd w \<Longrightarrow> chans w' = chans w \<Longrightarrow> goroutines w' = goroutines w \<Longrightarrow>
   agent_services w' = agent_services w \<Longrightarrow> hb_inv w' = hb_inv w"
  by (simp add: hb_inv_def heartbeat_keys_def active_heartbeats_def)

lemma hb_inv_Init: "hb_inv (snd (Init (new_world u0) u None))"
  by (simp add: hb_inv_def Init_def new_world_def newConsulServiceDiscovery_def ttl_entries_def
      heartbeat_keys_def active_heartbeats_def)

lemma hb_inv_Init_again: "hb_inv w \<Longrightarrow> hb_inv (snd (Init w u e))"
  by (cases e)
    (simp_all add: hb_inv_def Init_def Let_def ttl_entries_def heartbeat_keys_def
      active_heartbeats_def)

lemma registerTtl_Some:
  "ttl (csd w) = Some m \<Longrightarrow>
     registerTtl w i = Inr (None,
       w\<lparr>csd := (csd w)\<lparr>ttl := Some (AList.update (buildID i) (length (chans w)) m)\<rparr>,
         chans := chans w @ [ChanOpen],
         goroutines := goroutines w
           @ [\<lparr>hb_checkID = buildID i, hb_stopChan = length (chans w),
               hb_period = div_int64 (checkPassInterval (csd w)) 8 * Millisecond\<rparr>]\<rparr>)"
  by (simp add: registerTtl_def make_chan_def Let_def)

lemma hb_inv_Register_ok:
  assumes "hb_inv w" and fresh: "buildID i \<notin> heartbeat_keys w"
  shows "\<exists>w' i'. Register K w i None = Inr (None, w', i') \<and> hb_inv w'"
proof -
  from assms obtain m where m: "ttl (csd w) = Some m" and c: "consulClient (csd w) \<noteq> None"
    by (auto simp: hb_inv_def)
  let ?k = "buildID i" and ?c = "length (chans w)"
  let ?t = "\<lparr>hb_checkID = ?k, hb_stopChan = ?c,
             hb_period = div_int64 (checkPassInterval (csd w)) 8 * Millisecond\<rparr>"
  let ?w' = "w\<lparr>agent_services := insert ?k (agent_services w),
               csd := (csd w)\<lparr>ttl := Some (m @ [(?k, ?c)])\<rparr>,
               chans := chans w @ [ChanOpen],
               goroutines := goroutines w @ [?t]\<rparr>"
  from fresh m have km: "?k \<notin> fst ` set m"
    by (simp add: heartbeat_keys_def ttl_entries_def)
  then have upd: "AList.update ?k ?c m = m @ [(?k, ?c)]"
    by (rule update_fresh)
  from m c upd
  have R: "Register K w i None = Inr (None, ?w', snd (buildRegisterInstance K (csd w) i))"
    by (auto simp: Register_eq registerTtl_Some)
  from assms(1) m have inv:
    "distinct (map fst m)" "fst ` set m = agent_services w"
    "\<forall>t \<in> set (goroutines w). hb_stopChan t < ?c"
    "\<forall>p \<in> set m. snd p < ?c \<and> chans w ! snd p = ChanOpen
       \<and> map hb_checkID (filter (\<lambda>t. hb_stopChan t = snd p) (goroutines w)) = [fst p]"
    "\<forall>t \<in> set (active_heartbeats w). (hb_checkID t, hb_stopChan t) \<in> set m"
    by (simp_all add: hb_inv_def ttl_entries_def heartbeat_keys_def)
  from inv(3) have nofresh: "filter (\<lambda>t. hb_stopChan t = ?c) (goroutines w) = []"
    by (auto simp: filter_empty_conv)
  have ent: "\<forall>p \<in> set (m @ [(?k, ?c)]).
           snd p < length (chans w @ [ChanOpen]) \<and> (chans w @ [ChanOpen]) ! snd p = ChanOpen
           \<and> map hb_checkID (filter (\<lambda>t. hb_stopChan t = snd p) (goroutines w @ [?t])) = [fst p]"
  proof
    fix p assume "p \<in> set (m @ [(?k, ?c)])"
    then consider "p = (?k, ?c)" | "p \<in> set m"
      by auto
    then show "snd p < length (chans w @ [ChanOpen]) \<and> (chans w @ [ChanOpen]) ! snd p = ChanOpen
           \<and> map hb_checkID (filter (\<lambda>t. hb_stopChan t = snd p) (goroutines w @ [?t])) = [fst p]"
    proof cases
      case 1
      with nofresh show ?thesis by simp
    next
      case 2
      with inv(4) have p: "snd p < ?c" "chans w ! snd p = ChanOpen"
        "map hb_checkID (filter (\<lambda>t. hb_stopChan t = snd p) (goroutines w)) = [fst p]"
        by auto
      then show ?thesis by (simp add: nth_append)
    qed
  qed
  from inv(3) have g: "\<forall>t \<in> set (goroutines w @ [?t]). hb_stopChan t < length (chans w @ [ChanOpen])"
    by auto
  have act: "\<forall>t \<in> set (active_heartbeats ?w'). (hb_checkID t, hb_stopChan t) \<in> set (m @ [(?k, ?c)])"
  proof
    fix t assume "t \<in> set (active_heartbeats ?w')"
    then have t: "t \<in> set (goroutines w) \<or> t = ?t"
      "(chans w @ [ChanOpen]) ! hb_stopChan t = ChanOpen"
      by (auto simp: active_heartbeats_iff)
    show "(hb_checkID t, hb_stopChan t) \<in> set (m @ [(?k, ?c)])"
    proof (cases "t = ?t")
      case True
      then show ?thesis by simp
    next
      case False
      with t(1) have tg: "t \<in> set (goroutines w)" by simp
      with inv(3) have lt: "hb_stopChan t < ?c" by simp
      with t(2) have "chans w ! hb_stopChan t = ChanOpen" by (simp add: nth_append)
      with tg lt have "t \<in> set (active_heartbeats w)" by (simp add: active_heartbeats_iff)
      with inv(5) show ?thesis by simp
    qed
  qed
  from km inv(1) have d: "distinct (map fst (m @ [(?k, ?c)]))"
    by simp
  from inv(2) have keys: "fst ` set (m @ [(?k, ?c)]) = insert ?k (agent_services w)"
    by auto
  have "hb_inv ?w'"
    unfolding hb_inv_def
  proof (intro conjI)
    show "\<forall>t \<in> set (active_heartbeats ?w').
            (hb_checkID t, hb_stopChan t) \<in> set (ttl_entries (csd ?w'))"
      using act by (simp add: ttl_entries_def)
  qed (use c d keys ent g in \<open>simp_all add: ttl_entries_def heartbeat_keys_def\<close>)
  with R show ?thesis by blast
qed

lemma hb_inv_Register_fail:
  "hb_inv w \<Longrightarrow> \<exists>r i'. Register K w i (Some err) = Inr (r, w, i')"
  by (auto simp: hb_inv_def Register_eq)

lemma hb_inv_Register:
  assumes "hb_inv w" and "e \<noteq> None \<or> buildID i \<notin> heartbeat_keys w"
  shows "\<exists>r w' i'. Register K w i e = Inr (r, w', i') \<and> hb_inv w'"
proof (cases e)
  case None
  with assms(2) have "buildID i \<notin> heartbeat_keys w" by simp
  from hb_inv_Register_ok [OF assms(1) this, of K] None show ?thesis by blast
next
  case (Some err)
  with hb_inv_Register_fail [OF assms(1), of K i err] assms(1) show ?thesis by blast
qed

lemma hb_inv_Unregister:
  assumes "hb_inv w"
  shows "\<exists>r w'. Unregister w i d = Inr (r, w') \<and> hb_inv w'"
proof (cases d)
  case (Some err)
  with assms show ?thesis
    by (auto simp: hb_inv_def Unregister_def)
next
  case None
  let ?k = "buildID i"
  from assms have c: "consulClient (csd w) \<noteq> None" by (simp add: hb_inv_def)
  show ?thesis
  proof (cases "map_of (ttl_entries (csd w)) ?k")
    case absent: None
    then have "?k \<notin> heartbeat_keys w"
      by (simp add: heartbeat_keys_def map_of_eq_None_iff)
    with assms have "agent_services w - {?k} = agent_services w"
      by (auto simp: hb_inv_def)
    with assms have "hb_inv (w\<lparr>agent_services := agent_services w - {?k}\<rparr>)"
      using hb_inv_cong [of "w\<lparr>agent_services := agent_services w - {?k}\<rparr>" w] by simp
    with c absent None show ?thesis
      by (simp add: Unregister_absent)
  next
    case (Some ch)
    then have mem: "(?k, ch) \<in> set (ttl_entries (csd w))" by (rule map_of_SomeD)
    from assms obtain m where m: "ttl (csd w) = Some m" by (auto simp: hb_inv_def)
    from assms m have inv:
      "distinct (map fst m)" "fst ` set m = agent_services w"
      "\<forall>t \<in> set (goroutines w). hb_stopChan t < length (chans w)"
      "\<forall>p \<in> set m. snd p < length (chans w) \<and> chans w ! snd p = ChanOpen
         \<and> map hb_checkID (filter (\<lambda>t. hb_stopChan t = snd p) (goroutines w)) = [fst p]"
      "\<forall>t \<in> set (active_heartbeats w). (hb_checkID t, hb_stopChan t) \<in> set m"
      by (simp_all add: hb_inv_def ttl_entries_def heartbeat_keys_def)
    from mem m have mem': "(?k, ch) \<in> set m" by (simp add: ttl_entries_def)
    with inv(4) have op: "ch < length (chans w)" "chans w ! ch = ChanOpen"
      "map hb_checkID (filter (\<lambda>t. hb_stopChan t = ch) (goroutines w)) = [?k]"
      by auto
    let ?w' = "w\<lparr>agent_services := agent_services w - {?k},
                 csd := (csd w)\<lparr>ttl := map_option (AList.delete ?k) (ttl (csd w))\<rparr>,
                 chans := (chans w)[ch := ChanClosed]\<rparr>"
    from c Some op None have U: "Unregister w i d = Inr (None, ?w')"
      by (simp add: Unregister_present)
    have ent: "\<forall>p \<in> set (AList.delete ?k m).
         snd p < length (chans w) \<and> (chans w)[ch := ChanClosed] ! snd p = ChanOpen
         \<and> map hb_checkID (filter (\<lambda>t. hb_stopChan t = snd p) (goroutines w)) = [fst p]"
    proof
      fix p assume "p \<in> set (AList.delete ?k m)"
      then have p: "p \<in> set m" "fst p \<noteq> ?k" by (auto simp: set_delete)
      with inv(4) have q: "snd p < length (chans w)" "chans w ! snd p = ChanOpen"
        "map hb_checkID (filter (\<lambda>t. hb_stopChan t = snd p) (goroutines w)) = [fst p]"
        by auto
      from q(3) op(3) p(2) have "snd p \<noteq> ch" by auto
      with q show "snd p < length (chans w) \<and> (chans w)[ch := ChanClosed] ! snd p = ChanOpen
         \<and> map hb_checkID (filter (\<lambda>t. hb_stopChan t = snd p) (goroutines w)) = [fst p]"
        by simp
    qed
    have act: "\<forall>t \<in> set (active_heartbeats ?w').
         (hb_checkID t, hb_stopChan t) \<in> set (AList.delete ?k m)"
    proof
      fix t assume "t \<in> set (active_heartbeats ?w')"
      then have t: "t \<in> set (goroutines w)" "hb_stopChan t < length (chans w)"
        "(chans w)[ch := ChanClosed] ! hb_stopChan t = ChanOpen"
        by (auto simp: active_heartbeats_iff)
      from t(2,3) have ne: "hb_stopChan t \<noteq> ch"
        by (auto simp: nth_list_update)
      with t(3) have "chans w ! hb_stopChan t = ChanOpen" by simp
      with t(1,2) have "t \<in> set (active_heartbeats w)" by (simp add: active_heartbeats_iff)
      with inv(5) have tm: "(hb_checkID t, hb_stopChan t) \<in> set m" by simp
      have "hb_checkID t \<noteq> ?k"
      proof
        assume "hb_checkID t = ?k"
        with tm have "(?k, hb_stopChan t) \<in> set m" by simp
        with mem' inv(1) have "hb_stopChan t = ch"
          by (metis eq_key_imp_eq_value)
        with ne show False by simp
      qed
      with tm show "(hb_checkID t, hb_stopChan t) \<in> set (AList.delete ?k m)"
        by (simp add: set_delete)
    qed
    have keys: "fst ` set (AList.delete ?k m) = agent_services w - {?k}"
      using inv(2) by (auto simp: set_delete image_iff)
    have "hb_inv ?w'"
      unfolding hb_inv_def
    proof (intro conjI)
      show "\<forall>t \<in> set (active_heartbeats ?w').
              (hb_checkID t, hb_stopChan t) \<in> set (ttl_entries (csd ?w'))"
        using act m by (simp add: ttl_entries_def)
    qed (use c m inv(1,3) ent keys in
        \<open>simp_all add: ttl_entries_def heartbeat_keys_def distinct_delete\<close>)
    with U show ?thesis by blast
  qed
qed

lemma hb_inv_Update:
  assumes "hb_inv w"
    and ok: "(e = None \<or> (d \<noteq> None \<and> buildID i \<in> heartbeat_keys w)) = (buildID i \<in> heartbeat_keys w)"
  shows "\<exists>r w' i'. Update K w i d e = Inr (r, w', i') \<and> hb_inv w'"
proof -
  from assms(1) have c: "consulClient (csd w) \<noteq> None"
    and k: "heartbeat_keys w = agent_services w"
    by (auto simp: hb_inv_def)
  let ?A = "agent_services w" and ?k = "buildID i"
  let ?A1 = "case d of None \<Rightarrow> ?A - {?k} | Some err \<Rightarrow> ?A"
  let ?A2 = "case e of None \<Rightarrow> insert ?k ?A1 | Some err \<Rightarrow> ?A1"
  from c have "\<exists>r w' i'. Update K w i d e = Inr (r, w', i') \<and> csd w' = csd w
      \<and> chans w' = chans w \<and> goroutines w' = goroutines w \<and> agent_services w' = ?A2"
    by (cases d; cases e) (auto simp: Update_eq)
  then obtain r w' i' where U: "Update K w i d e = Inr (r, w', i')"
    and f: "csd w' = csd w" "chans w' = chans w" "goroutines w' = goroutines w"
      "agent_services w' = ?A2"
    by blast
  from ok k have "?A2 = ?A"
    by (cases d; cases e) auto
  with f have "hb_inv w' = hb_inv w"
    by (intro hb_inv_cong) simp_all
  with assms(1) U show ?thesis by blast
qed

lemma hb_inv_apply_op:
  assumes "hb_inv w" and "op_ok x w"
  shows "\<exists>w'. apply_op K x w = Inr w' \<and> hb_inv w'"
proof (cases x)
  case (OpInit u e)
  with hb_inv_Init_again [OF assms(1), of u e] show ?thesis by simp
next
  case (OpRegister i e)
  with assms(2) hb_inv_Register [OF assms(1), of e i K] show ?thesis by auto
next
  case (OpUpdate i d e)
  with assms(2) hb_inv_Update [OF assms(1), of e d i K] show ?thesis by auto
next
  case (OpUnregister i d)
  with hb_inv_Unregister [OF assms(1), of i d] show ?thesis by auto
next
  case OpDestroy
  with assms(2) show ?thesis by simp
qed

lemma hb_inv_run:
  "hb_inv w \<Longrightarrow> admissible K xs w \<Longrightarrow> \<exists>w'. run K xs w = Inr w' \<and> hb_inv w'"
proof (induction xs arbitrary: w)
  case Nil
  then show ?case by simp
next
  case (Cons x xs)
  from Cons.prems have "op_ok x w" by simp
  from hb_inv_apply_op [OF Cons.prems(1) this, of K]
  obtain w1 where w1: "apply_op K x w = Inr w1" "hb_inv w1" by blast
  with Cons.prems have "admissible K xs w1" by simp
  from Cons.IH [OF w1(2) this] w1(1) show ?case by simp
qed

text \<open>What the invariant gives: the keys with an active task are the registered
  keys, and each has one active task.\<close>

lemma hb_inv_active_keys:
  assumes "hb_inv w"
  shows "active_keys w = agent_services w"
proof
  show "active_keys w \<subseteq> agent_services w"
  proof
    fix k assume "k \<in> active_keys w"
    then obtain t where "t \<in> set (active_heartbeats w)" "hb_checkID t = k"
      by (auto simp: active_keys_def)
    with assms have "(k, hb_stopChan t) \<in> set (ttl_entries (csd w))"
      by (auto simp: hb_inv_def)
    then have "k \<in> heartbeat_keys w"
      by (force simp: heartbeat_keys_def)
    with assms show "k \<in> agent_services w" by (simp add: hb_inv_def)
  qed
  show "agent_services w \<subseteq> active_keys w"
  proof
    fix k assume "k \<in> agent_services w"
    with assms have "k \<in> fst ` set (ttl_entries (csd w))"
      by (simp add: hb_inv_def heartbeat_keys_def)
    then obtain p where p: "p \<in> set (ttl_entries (csd w))" "fst p = k"
      by auto
    with assms have q: "snd p < length (chans w)" "chans w ! snd p = ChanOpen"
      "map hb_checkID (filter (\<lambda>t. hb_stopChan t = snd p) (goroutines w)) = [k]"
      by (auto simp: hb_inv_def)
    from q(3) obtain t where "filter (\<lambda>t. hb_stopChan t = snd p) (goroutines w) = [t]"
      "hb_checkID t = k"
      by auto
    then have "t \<in> set (goroutines w)" "hb_stopChan t = snd p" "hb_checkID t = k"
      by (auto simp: filter_eq_Cons_iff)
    with q(1,2) show "k \<in> active_keys w"
      by (auto simp: active_keys_def active_heartbeats_def)
  qed
qed

lemma hb_inv_one_task:
  assumes "hb_inv w" and "k \<in> agent_services w"
  shows "task_count k w = 1"
proof -
  from assms have "k \<in> fst ` set (ttl_entries (csd w))"
    by (simp add: hb_inv_def heartbeat_keys_def)
  then obtain c where kc: "(k, c) \<in> set (ttl_entries (csd w))"
    by auto
  with assms(1) have q: "c < length (chans w)" "chans w ! c = ChanOpen"
    "map hb_checkID (filter (\<lambda>t. hb_stopChan t = c) (goroutines w)) = [k]"
    by (auto simp: hb_inv_def)
  from assms(1) have d: "distinct (map fst (ttl_entries (csd w)))"
    and a: "\<forall>t \<in> set (active_heartbeats w).
              (hb_checkID t, hb_stopChan t) \<in> set (ttl_entries (csd w))"
    by (simp_all add: hb_inv_def)
  have "tasks_of k w = filter (\<lambda>t. hb_stopChan t = c) (goroutines w)"
    unfolding tasks_of_def active_heartbeats_def filter_filter
  proof (rule filter_cong [OF refl])
    fix t assume tg: "t \<in> set (goroutines w)"
    show "((hb_stopChan t < length (chans w) \<and> chans w ! hb_stopChan t = ChanOpen)
            \<and> hb_checkID t = k) = (hb_stopChan t = c)"
    proof
      assume l: "(hb_stopChan t < length (chans w) \<and> chans w ! hb_stopChan t = ChanOpen)
            \<and> hb_checkID t = k"
      with tg have "t \<in> set (active_heartbeats w)" by (simp add: active_heartbeats_iff)
      with a l have "(k, hb_stopChan t) \<in> set (ttl_entries (csd w))" by auto
      with kc d show "hb_stopChan t = c" by (metis eq_key_imp_eq_value)
    next
      assume r: "hb_stopChan t = c"
      with tg have "hb_checkID t \<in> set (map hb_checkID (filter (\<lambda>t. hb_stopChan t = c) (goroutines w)))"
        by auto
      with q(3) have "hb_checkID t = k" by simp
      with r q(1,2) show "(hb_stopChan t < length (chans w) \<and> chans w ! hb_stopChan t = ChanOpen)
            \<and> hb_checkID t = k"
        by simp
    qed
  qed
  then have "task_count k w = length (map hb_checkID (filter (\<lambda>t. hb_stopChan t = c) (goroutines w)))"
    by (simp add: task_count_def)
  with q(3) show ?thesis by simp
qed

lemma hb_inv_Destroy:
  assumes "hb_inv w"
  shows "\<exists>w'. Destroy w = Inr (None, w') \<and> active_heartbeats w' = []
           \<and> agent_services w' = agent_services w"
proof -
  let ?m = "ttl_entries (csd w)"
  from assms have d: "distinct (map fst ?m)"
    and e: "\<forall>p \<in> set ?m. snd p < length (chans w) \<and> chans w ! snd p = ChanOpen
         \<and> map hb_checkID (filter (\<lambda>t. hb_stopChan t = snd p) (goroutines w)) = [fst p]"
    and a: "\<forall>t \<in> set (active_heartbeats w). (hb_checkID t, hb_stopChan t) \<in> set ?m"
    by (simp_all add: hb_inv_def)
  have "inj_on snd (set ?m)"
  proof (rule inj_onI)
    fix p q assume "p \<in> set ?m" "q \<in> set ?m" "snd p = snd q"
    with e have "[fst p] = [fst q]" by metis
    with \<open>snd p = snd q\<close> show "p = q" by (simp add: prod_eq_iff)
  qed
  moreover from d have "distinct ?m" by (simp add: distinct_map)
  ultimately have ds: "distinct (map snd ?m)" by (simp add: distinct_map)
  from e have "\<forall>c \<in> set (map snd ?m). c < length (chans w) \<and> chans w ! c = ChanOpen"
    by auto
  from close_all_open [OF ds this] obtain cs' where
    cs: "close_all (map snd ?m) (chans w) = Inr cs'" "length cs' = length (chans w)"
      "\<forall>j < length (chans w). cs' ! j = (if j \<in> set (map snd ?m) then ChanClosed else chans w ! j)"
    by blast
  let ?w' = "w\<lparr>csd := (csd w)\<lparr>consulClient := None, ttl := None\<rparr>, chans := cs'\<rparr>"
  from cs(1) have D: "Destroy w = Inr (None, ?w')"
    by (simp add: Destroy_def Let_def ttl_entries_def)
  have "active_heartbeats ?w' = []"
  proof (rule ccontr)
    assume "active_heartbeats ?w' \<noteq> []"
    then obtain t where "t \<in> set (active_heartbeats ?w')"
      by (cases "active_heartbeats ?w'") auto
    then have t: "t \<in> set (goroutines w)" "hb_stopChan t < length (chans w)"
      "cs' ! hb_stopChan t = ChanOpen"
      by (auto simp: active_heartbeats_iff cs(2))
    with cs(3) have n: "hb_stopChan t \<notin> set (map snd ?m)" "chans w ! hb_stopChan t = ChanOpen"
      by (auto split: if_splits)
    with t have "t \<in> set (active_heartbeats w)" by (simp add: active_heartbeats_iff)
    with a have "(hb_checkID t, hb_stopChan t) \<in> set ?m" by simp
    then have "hb_stopChan t \<in> set (map snd ?m)" by force
    with n(1) show False by simp
  qed
  with D show ?thesis by auto
qed

text \<open>
  C1, as the code has it. Take any sequence of operations that begins with a
  successful \<open>Init\<close> and goes on with \<open>Init\<close> and \<open>Unregister\<close> calls of any
  outcome, \<open>Register\<close> calls that fail at the backend or whose instance key has
  no heartbeat entry at that time, and \<open>Update\<close> calls after which the instance is
  registered exactly if its key has a heartbeat entry. No operation panics, and
  afterwards the set of instance keys with an active heartbeat task is the set of
  instance keys the adapter believes registered, with exactly one active heartbeat
  task for each of them. A \<open>Destroy\<close> at the end of such a sequence cancels every
  heartbeat task and deregisters nothing.
\<close>

theorem heartbeats_match_registrations:
  assumes "admissible K xs (snd (Init (new_world u0) u None))"
  shows "\<exists>w. run K (OpInit u None # xs) (new_world u0) = Inr w
          \<and> active_keys w = agent_services w
          \<and> (\<forall>k \<in> agent_services w. task_count k w = 1)
          \<and> (\<exists>w'. Destroy w = Inr (None, w') \<and> active_heartbeats w' = []
                \<and> agent_services w' = agent_services w)"
proof -
  from hb_inv_run [OF hb_inv_Init assms]
  obtain w where w: "run K xs (snd (Init (new_world u0) u None)) = Inr w" "hb_inv w"
    by blast
  from w(1) have "run K (OpInit u None # xs) (new_world u0) = Inr w"
    by simp
  with hb_inv_active_keys [OF w(2)] hb_inv_one_task [OF w(2)] hb_inv_Destroy [OF w(2)]
  show ?thesis
    by blast
qed

lemma admissible_ex_seq: "admissible ex_K ex_seq (snd (Init (new_world ex_url) ex_url None))"
  by code_simp

lemma run_ex_seq: "run ex_K (OpInit ex_url None # ex_seq) (new_world ex_url) = Inr ex_registered"
  by code_simp

theorem heartbeats_match_registrations_witness:
  "admissible ex_K ex_seq (snd (Init (new_world ex_url) ex_url None))
   \<and> run ex_K (OpInit ex_url None # ex_seq) (new_world ex_url) = Inr ex_registered
   \<and> active_keys ex_registered = agent_services ex_registered
   \<and> ex_key \<in> agent_services ex_registered
   \<and> task_count ex_key ex_registered = 1
   \<and> (\<exists>w'. Destroy ex_registered = Inr (None, w') \<and> active_heartbeats w' = [])"
proof -
  from heartbeats_match_registrations [OF admissible_ex_seq]
  obtain w where w: "run ex_K (OpInit ex_url None # ex_seq) (new_world ex_url) = Inr w"
    "active_keys w = agent_services w" "\<forall>k \<in> agent_services w. task_count k w = 1"
    "\<exists>w'. Destroy w = Inr (None, w') \<and> active_heartbeats w' = []
           \<and> agent_services w' = agent_services w"
    by blast
  from w(1) run_ex_seq have e: "w = ex_registered" by simp
  have k: "ex_key \<in> agent_services ex_registered"
    by (simp add: ex_key_def ex_registered_def)
  with w(3) e have "task_count ex_key ex_registered = 1" by blast
  with w e k run_ex_seq admissible_ex_seq show ?thesis
    by blast
qed

lemma ex_runs:
  "map_sum id agent_services
     (run ex_K [OpInit ex_url None, OpUpdate ex_instance (Some (BackendError ''unknown service'')) None]
        (new_world ex_url)) = Inr {ex_key}"
  "map_sum id active_keys
     (run ex_K [OpInit ex_url None, OpUpdate ex_instance (Some (BackendError ''unknown service'')) None]
        (new_world ex_url)) = Inr {}"
  "map_sum id agent_services
     (run ex_K [OpInit ex_url None, OpRegister ex_instance None,
                OpUpdate ex_instance None (Some (BackendError ''agent down''))]
        (new_world ex_url)) = Inr {}"
  "map_sum id active_keys
     (run ex_K [OpInit ex_url None, OpRegister ex_instance None,
                OpUpdate ex_instance None (Some (BackendError ''agent down''))]
        (new_world ex_url)) = Inr {ex_key}"
  "map_sum id (task_count ex_key)
     (run ex_K [OpInit ex_url None, OpRegister ex_instance None, OpRegister ex_instance None]
        (new_world ex_url)) = Inr 2"
  "map_sum id agent_services
     (run ex_K [OpInit ex_url None, OpRegister ex_instance None, OpRegister ex_instance None,
                OpUnregister ex_instance None]
        (new_world ex_url)) = Inr {}"
  "map_sum id active_keys
     (run ex_K [OpInit ex_url None, OpRegister ex_instance None, OpRegister ex_instance None,
                OpUnregister ex_instance None]
        (new_world ex_url)) = Inr {ex_key}"
  "map_sum id agent_services
     (run ex_K [OpInit ex_url None, OpRegister ex_instance None, OpDestroy]
        (new_world ex_url)) = Inr {ex_key}"
  "map_sum id active_keys
     (run ex_K [OpInit ex_url None, OpRegister ex_instance None, OpDestroy]
        (new_world ex_url)) = Inr {}"
  by code_simp+

text \<open>The claim as stated fails in each of these runs, all after a successful
  \<open>Init\<close>. A successful \<open>Update\<close> of an instance that was never registered leaves
  it registered with no heartbeat task. An \<open>Update\<close> of a registered instance whose
  deregister call succeeds and whose register call fails leaves its heartbeat task
  running with nothing registered. A second \<open>Register\<close> of a registered instance
  leaves two active heartbeat tasks for its key, and the \<open>Unregister\<close> after it
  stops only one of them. \<open>Destroy\<close> after a \<open>Register\<close> stops the heartbeat task
  and leaves the instance registered.\<close>

theorem Update_without_heartbeat_counterexample:
  "map_sum id agent_services
     (run ex_K [OpInit ex_url None, OpUpdate ex_instance (Some (BackendError ''unknown service'')) None]
        (new_world ex_url)) = Inr {ex_key}
   \<and> map_sum id active_keys
     (run ex_K [OpInit ex_url None, OpUpdate ex_instance (Some (BackendError ''unknown service'')) None]
        (new_world ex_url)) = Inr {}
   \<and> map_sum id agent_services
     (run ex_K [OpInit ex_url None, OpRegister ex_instance None,
                OpUpdate ex_instance None (Some (BackendError ''agent down''))]
        (new_world ex_url)) = Inr {}
   \<and> map_sum id active_keys
     (run ex_K [OpInit ex_url None, OpRegister ex_instance None,
                OpUpdate ex_instance None (Some (BackendError ''agent down''))]
        (new_world ex_url)) = Inr {ex_key}
   \<and> map_sum id (task_count ex_key)
     (run ex_K [OpInit ex_url None, OpRegister ex_instance None, OpRegister ex_instance None]
        (new_world ex_url)) = Inr 2
   \<and> map_sum id agent_services
     (run ex_K [OpInit ex_url None, OpRegister ex_instance None, OpRegister ex_instance None,
                OpUnregister ex_instance None]
        (new_world ex_url)) = Inr {}
   \<and> map_sum id active_keys
     (run ex_K [OpInit ex_url None, OpRegister ex_instance None, OpRegister ex_instance None,
                OpUnregister ex_instance None]
        (new_world ex_url)) = Inr {ex_key}
   \<and> map_sum id agent_services
     (run ex_K [OpInit ex_url None, OpRegister ex_instance None, OpDestroy]
        (new_world ex_url)) = Inr {ex_key}
   \<and> map_sum id active_keys
     (run ex_K [OpInit ex_url None, OpRegister ex_instance None, OpDestroy]
        (new_world ex_url)) = Inr {}
   \<and> {ex_key} \<noteq> ({} :: string set)"
  by (intro conjI ex_runs) simp

end
